theory Spec2Isabelle
  imports Main "HOL-Library.Word"
begin

unbundle bit_operations_syntax

section \<open>JavaScript values used by the codec\<close>

text \<open>
  A JavaScript \<open>number\<close> that holds an integer, and a \<open>bigint\<close>, are modelled by \<open>int\<close>;
  numbers with a fractional part, infinities and NaN are outside the model. An element of a
  \<open>Uint8Array\<close> is an \<open>8 word\<close>. The value \<open>undefined\<close>, which indexing a typed array
  out of range yields, is \<open>None\<close>.

  The bitwise operators of the language work on 32-bit two's-complement integers: each
  operand goes through \<open>ToInt32\<close> (\<open>ToUint32\<close> for \<open>>>>\<close>), and \<open><<\<close> wraps its
  result to 32 bits.
\<close>

type_synonym byte = "8 word"

definition ToInt32 :: "int \<Rightarrow> int" where
  "ToInt32 v = sint (word_of_int v :: 32 word)"

definition ToUint32 :: "int \<Rightarrow> int" where
  "ToUint32 v = uint (word_of_int v :: 32 word)"

definition js_and :: "int \<Rightarrow> int \<Rightarrow> int" where
  "js_and a b = ToInt32 a AND ToInt32 b"

definition js_or :: "int \<Rightarrow> int \<Rightarrow> int" where
  "js_or a b = ToInt32 a OR ToInt32 b"

definition js_shl :: "int \<Rightarrow> nat \<Rightarrow> int" where
  "js_shl a n = ToInt32 (push_bit (n mod 32) (ToInt32 a))"

definition js_sar :: "int \<Rightarrow> nat \<Rightarrow> int" where
  "js_sar a n = drop_bit (n mod 32) (ToInt32 a)"

definition js_shr :: "int \<Rightarrow> nat \<Rightarrow> int" where
  "js_shr a n = drop_bit (n mod 32) (ToUint32 a)"

text \<open>\<open>ToNumber(undefined)\<close> is NaN, which the bitwise operators read as 0.\<close>

definition elem_bits :: "int option \<Rightarrow> int" where
  "elem_bits x = (case x of None \<Rightarrow> 0 | Some v \<Rightarrow> v)"

text \<open>\<open>a[i]\<close> on a \<open>Uint8Array\<close>: the element as a number, \<open>undefined\<close> out of range.\<close>

definition at :: "byte list \<Rightarrow> int \<Rightarrow> int option" where
  "at a i = (if 0 \<le> i \<and> i < int (length a) then Some (uint (a ! nat i)) else None)"

text \<open>
  \<open>a.slice(start, end)\<close> on a \<open>Uint8Array\<close>: a negative index counts from the end, both
  indices are clamped to the array, and the result is a fresh array.
\<close>

definition slice :: "byte list \<Rightarrow> int \<Rightarrow> int \<Rightarrow> byte list" where
  "slice a start end' =
     (let len = int (length a);
          k = (if start < 0 then max (len + start) 0 else min start len);
          final = (if end' < 0 then max (len + end') 0 else min end' len)
      in take (nat (final - k)) (drop (nat k) a))"

text \<open>
  \<open>new Uint8Array(xs)\<close> and \<open>target.set(xs, off)\<close> store each number of \<open>xs\<close> modulo 256.
\<close>

definition Uint8Array_from :: "int list \<Rightarrow> byte list" where
  "Uint8Array_from xs = map word_of_int xs"

definition Uint8Array_set :: "byte list \<Rightarrow> int list \<Rightarrow> nat \<Rightarrow> byte list" where
  "Uint8Array_set target xs off =
     take off target @ Uint8Array_from xs @ drop (off + length xs) target"

subsection \<open>DataView\<close>

text \<open>
  A \<open>DataView\<close> stores and loads a fixed-width value in little-endian order when its last
  argument is \<open>true\<close>. \<open>le_bytes n w\<close> are the \<open>n\<close> low bytes of \<open>w\<close>, least significant
  first; \<open>le_word\<close> assembles them again. The integer setters reduce their argument
  modulo the width (\<open>word_of_int\<close>), the integer getters read two's complement (\<open>sint\<close>).
  A 32-bit or 64-bit float is represented by its IEEE-754 bit pattern, which is what the
  view stores; the conversion between a number and its pattern belongs to the platform
  and is not modelled.
\<close>

definition le_bytes :: "nat \<Rightarrow> 'a::len word \<Rightarrow> byte list" where
  "le_bytes n w = map (\<lambda>i. ucast (drop_bit (8 * i) w)) [0..<n]"

fun le_word :: "byte list \<Rightarrow> 'a::len word" where
  "le_word [] = 0"
| "le_word (b # bs) = ucast b OR push_bit 8 (le_word bs)"

type_synonym float32 = "32 word"
type_synonym float64 = "64 word"

datatype error = Error string | TypeError | RangeError

text \<open>
  \<open>new DataView(buffer, byteOffset, byteLength)\<close> raises a RangeError when the window does
  not lie inside the buffer. The reader's array is taken to span its buffer from byte 0.
\<close>

definition DataView_new :: "byte list \<Rightarrow> int \<Rightarrow> nat \<Rightarrow> error + byte list" where
  "DataView_new buf byteOffset byteLength =
     (if byteOffset < 0 \<or> byteOffset + int byteLength > int (length buf) then Inl RangeError
      else Inr (take byteLength (drop (nat byteOffset) buf)))"

subsection \<open>TextEncoder and TextDecoder\<close>

text \<open>
  A JavaScript string is a sequence of UTF-16 code units. \<open>TextEncoder.encode\<close> first
  reads it as a sequence of Unicode scalar values, a surrogate pair giving one value above
  U+FFFF and an unpaired surrogate becoming U+FFFD, and then writes each scalar value in
  UTF-8. Arithmetic on \<open>nat\<close> stands for the shifts and masks of the standard.
\<close>

type_synonym jsstring = "16 word list"

definition is_lead :: "nat \<Rightarrow> bool" where
  "is_lead u = (0xD800 \<le> u \<and> u \<le> 0xDBFF)"

definition is_trail :: "nat \<Rightarrow> bool" where
  "is_trail u = (0xDC00 \<le> u \<and> u \<le> 0xDFFF)"

definition is_surrogate :: "nat \<Rightarrow> bool" where
  "is_surrogate u = (0xD800 \<le> u \<and> u \<le> 0xDFFF)"

fun to_scalars :: "nat list \<Rightarrow> nat list" where
  "to_scalars [] = []"
| "to_scalars [u] = [if is_surrogate u then 0xFFFD else u]"
| "to_scalars (u # l # us) =
     (if is_lead u \<and> is_trail l
      then (0x10000 + (u - 0xD800) * 0x400 + (l - 0xDC00)) # to_scalars us
      else (if is_surrogate u then 0xFFFD else u) # to_scalars (l # us))"

definition utf8_bytes :: "nat \<Rightarrow> nat list" where
  "utf8_bytes c =
     (if c < 0x80 then [c]
      else if c < 0x800 then [0xC0 + c div 0x40, 0x80 + c mod 0x40]
      else if c < 0x10000 then
        [0xE0 + c div 0x1000, 0x80 + c div 0x40 mod 0x40, 0x80 + c mod 0x40]
      else
        [0xF0 + c div 0x40000, 0x80 + c div 0x1000 mod 0x40,
         0x80 + c div 0x40 mod 0x40, 0x80 + c mod 0x40])"

definition utf8_encode :: "nat list \<Rightarrow> nat list" where
  "utf8_encode cs = concat (map utf8_bytes cs)"

definition TextEncoder_encode :: "jsstring \<Rightarrow> byte list" where
  "TextEncoder_encode s = map of_nat (utf8_encode (to_scalars (map unat s)))"

text \<open>
  \<open>new TextDecoder('utf-8').decode\<close> runs the UTF-8 decoder of the Encoding standard in
  replacement mode: the state is the code point under construction, the number of
  continuation bytes seen and needed, and the bounds of the next continuation byte. An
  ill-formed sequence yields U+FFFD, and the byte that broke it is read again. One leading
  U+FEFF is dropped (\<open>ignoreBOM\<close> is false by default), and the scalar values are returned
  as UTF-16 code units.
\<close>

function utf8_decode :: "nat \<Rightarrow> nat \<Rightarrow> nat \<Rightarrow> nat \<Rightarrow> nat \<Rightarrow> nat list \<Rightarrow> nat list" where
  "utf8_decode cp seen needed lower upper [] = (if needed \<noteq> 0 then [0xFFFD] else [])"
| "utf8_decode cp seen needed lower upper (b # bs) =
     (if needed = 0 then
        (if b \<le> 0x7F then b # utf8_decode cp seen needed lower upper bs
         else if 0xC2 \<le> b \<and> b \<le> 0xDF then utf8_decode (b mod 0x20) seen 1 lower upper bs
         else if 0xE0 \<le> b \<and> b \<le> 0xEF then
           utf8_decode (b mod 0x10) seen 2
             (if b = 0xE0 then 0xA0 else lower) (if b = 0xED then 0x9F else upper) bs
         else if 0xF0 \<le> b \<and> b \<le> 0xF4 then
           utf8_decode (b mod 0x08) seen 3
             (if b = 0xF0 then 0x90 else lower) (if b = 0xF4 then 0x8F else upper) bs
         else 0xFFFD # utf8_decode cp seen needed lower upper bs)
      else if b < lower \<or> upper < b then 0xFFFD # utf8_decode 0 0 0 0x80 0xBF (b # bs)
      else
        let cp' = cp * 0x40 + b mod 0x40; seen' = seen + 1
        in if seen' \<noteq> needed then utf8_decode cp' seen' needed 0x80 0xBF bs
           else cp' # utf8_decode 0 0 0 0x80 0xBF bs)"
  by pat_completeness auto
termination
  by (relation "measure (\<lambda>(cp, seen, needed, lower, upper, bs).
        2 * length bs + (if needed = 0 then 0 else 1))") auto

definition strip_bom :: "nat list \<Rightarrow> nat list" where
  "strip_bom cs = (case cs of [] \<Rightarrow> [] | c # rest \<Rightarrow> if c = 0xFEFF then rest else cs)"

definition utf16_units :: "nat \<Rightarrow> nat list" where
  "utf16_units c =
     (if c < 0x10000 then [c]
      else [0xD800 + (c - 0x10000) div 0x400, 0xDC00 + (c - 0x10000) mod 0x400])"

definition from_scalars :: "nat list \<Rightarrow> nat list" where
  "from_scalars cs = concat (map utf16_units cs)"

definition TextDecoder_decode :: "byte list \<Rightarrow> jsstring" where
  "TextDecoder_decode bytes =
     map of_nat (from_scalars (strip_bom (utf8_decode 0 0 0 0x80 0xBF (map unat bytes))))"

text \<open>The code units of a string literal of ASCII characters.\<close>

definition ascii :: "string \<Rightarrow> jsstring" where
  "ascii cs = map (\<lambda>c. of_nat (of_char c)) cs"

section \<open>PacketWriter\<close>

record PacketWriter =
  buffer :: "int list"
  packetId :: int

definition writeUInt8 :: "int \<Rightarrow> PacketWriter \<Rightarrow> PacketWriter" where
  "writeUInt8 v w = w\<lparr>buffer := buffer w @ [js_and v 0xFF]\<rparr>"

definition writeUInt16 :: "int \<Rightarrow> PacketWriter \<Rightarrow> PacketWriter" where
  "writeUInt16 v w =
     w\<lparr>buffer := buffer w @ [js_and v 0xFF, js_and (js_sar v 8) 0xFF]\<rparr>"

definition PacketWriter_new :: "int \<Rightarrow> PacketWriter" where
  "PacketWriter_new pid = writeUInt16 pid \<lparr>buffer = [], packetId = pid\<rparr>"

definition writeUInt32 :: "int \<Rightarrow> PacketWriter \<Rightarrow> PacketWriter" where
  "writeUInt32 v w =
     w\<lparr>buffer := buffer w @
        [js_and v 0xFF, js_and (js_sar v 8) 0xFF,
         js_and (js_sar v 16) 0xFF, js_and (js_sar v 24) 0xFF]\<rparr>"

text \<open>The loop of \<open>writeUInt64\<close>; \<open>>>\<close> and \<open>&\<close> on bigints are exact.\<close>

function writeUInt64_loop :: "int \<Rightarrow> nat \<Rightarrow> int list \<Rightarrow> int list" where
  "writeUInt64_loop bigValue i buf =
     (if i < 8 then writeUInt64_loop bigValue (i + 1) (buf @ [drop_bit (i * 8) bigValue AND 0xFF])
      else buf)"
  by pat_completeness auto
termination
  by (relation "measure (\<lambda>(v, i, buf). 8 - i)") auto

definition writeUInt64 :: "int \<Rightarrow> PacketWriter \<Rightarrow> PacketWriter" where
  "writeUInt64 v w = w\<lparr>buffer := writeUInt64_loop v 0 (buffer w)\<rparr>"

definition writeInt32 :: "int \<Rightarrow> PacketWriter \<Rightarrow> PacketWriter" where
  "writeInt32 v w =
     (let bytes = le_bytes 4 (word_of_int v :: 32 word)
      in w\<lparr>buffer := buffer w @ map uint bytes\<rparr>)"

definition writeInt64 :: "int \<Rightarrow> PacketWriter \<Rightarrow> PacketWriter" where
  "writeInt64 v w =
     (let bytes = le_bytes 8 (word_of_int v :: 64 word)
      in w\<lparr>buffer := buffer w @ map uint bytes\<rparr>)"

definition writeFloat32 :: "float32 \<Rightarrow> PacketWriter \<Rightarrow> PacketWriter" where
  "writeFloat32 v w =
     (let bytes = le_bytes 4 v
      in w\<lparr>buffer := buffer w @ map uint bytes\<rparr>)"

definition writeFloat64 :: "float64 \<Rightarrow> PacketWriter \<Rightarrow> PacketWriter" where
  "writeFloat64 v w =
     (let bytes = le_bytes 8 v
      in w\<lparr>buffer := buffer w @ map uint bytes\<rparr>)"

definition writeBool :: "bool \<Rightarrow> PacketWriter \<Rightarrow> PacketWriter" where
  "writeBool v w = w\<lparr>buffer := buffer w @ [if v then 0x01 else 0x00]\<rparr>"

text \<open>
  \<open>xs.push(...ys)\<close> passes every element of \<open>ys\<close> as an argument of one call. An engine
  accepts only so many arguments in a call: beyond them the call throws a RangeError and
  nothing is appended. The language sets no such number; it is the engine's, and it is the
  parameter \<open>limit\<close> of the two writes whose number of arguments depends on their input.
  The 4 and 8 arguments of the fixed-width writes above are taken to be within it.

  These two writes return their outcome (\<open>Inl\<close> the exception thrown) together with the
  writer they leave behind. \<open>writeString\<close> has written the length prefix when the call
  that appends the bytes throws.
\<close>

definition push_spread :: "nat \<Rightarrow> int list \<Rightarrow> int list \<Rightarrow> error + int list" where
  "push_spread limit xs ys = (if limit < length ys then Inl RangeError else Inr (xs @ ys))"

definition writeString :: "nat \<Rightarrow> jsstring \<Rightarrow> PacketWriter \<Rightarrow> (error + unit) \<times> PacketWriter" where
  "writeString limit v w =
     (let utf8Bytes = TextEncoder_encode v;
          w1 = writeUInt16 (int (length utf8Bytes)) w
      in case push_spread limit (buffer w1) (map uint utf8Bytes) of
           Inl e \<Rightarrow> (Inl e, w1)
         | Inr buf \<Rightarrow> (Inr (), w1\<lparr>buffer := buf\<rparr>))"

definition writeBytes :: "nat \<Rightarrow> byte list \<Rightarrow> PacketWriter \<Rightarrow> (error + unit) \<times> PacketWriter" where
  "writeBytes limit bytes w =
     (case push_spread limit (buffer w) (map uint bytes) of
        Inl e \<Rightarrow> (Inl e, w)
      | Inr buf \<Rightarrow> (Inr (), w\<lparr>buffer := buf\<rparr>))"

text \<open>
  The three extraction methods return their result together with the writer they leave
  behind.
\<close>

definition getBytes :: "PacketWriter \<Rightarrow> byte list \<times> PacketWriter" where
  "getBytes w =
     (let payloadLength = length (buffer w);
          fullPacket = replicate (2 + payloadLength) (0 :: byte);
          fullPacket = fullPacket[0 := word_of_int (js_and (int payloadLength) 0xFF)];
          fullPacket = fullPacket[1 := word_of_int (js_and (js_sar (int payloadLength) 8) 0xFF)];
          fullPacket = Uint8Array_set fullPacket (buffer w) 2
      in (fullPacket, w))"

definition getData :: "PacketWriter \<Rightarrow> byte list \<times> PacketWriter" where
  "getData w = (Uint8Array_from (buffer w), w)"

definition getPacketId :: "PacketWriter \<Rightarrow> int \<times> PacketWriter" where
  "getPacketId w = (packetId w, w)"

section \<open>PacketReader\<close>

text \<open>
  Every method returns its outcome (\<open>Inl\<close> the exception thrown, \<open>Inr\<close> the value
  returned) together with the reader it leaves behind, so that the state after a throw
  is part of the model.
\<close>

record PacketReader =
  data :: "byte list"
  offset :: int

definition PacketReader_new :: "byte list \<Rightarrow> PacketReader" where
  "PacketReader_new d = \<lparr>data = d, offset = 0\<rparr>"

definition readUInt8 :: "PacketReader \<Rightarrow> (error + int option) \<times> PacketReader" where
  "readUInt8 r =
     (if offset r + 1 > int (length (data r))
      then (Inl (Error ''PacketReader: Not enough data to read UInt8''), r)
      else (Inr (at (data r) (offset r)), r\<lparr>offset := offset r + 1\<rparr>))"

definition readUInt16 :: "PacketReader \<Rightarrow> (error + int) \<times> PacketReader" where
  "readUInt16 r =
     (if offset r + 2 > int (length (data r))
      then (Inl (Error ''PacketReader: Not enough data to read UInt16''), r)
      else
        let v = js_or (elem_bits (at (data r) (offset r)))
                      (js_shl (elem_bits (at (data r) (offset r + 1))) 8)
        in (Inr v, r\<lparr>offset := offset r + 2\<rparr>))"

definition readUInt32 :: "PacketReader \<Rightarrow> (error + int) \<times> PacketReader" where
  "readUInt32 r =
     (if offset r + 4 > int (length (data r))
      then (Inl (Error ''PacketReader: Not enough data to read UInt32''), r)
      else
        let v = js_or (js_or (js_or (elem_bits (at (data r) (offset r)))
                                    (js_shl (elem_bits (at (data r) (offset r + 1))) 8))
                             (js_shl (elem_bits (at (data r) (offset r + 2))) 16))
                      (js_shl (elem_bits (at (data r) (offset r + 3))) 24)
        in (Inr (js_shr v 0), r\<lparr>offset := offset r + 4\<rparr>))"

text \<open>The loop of \<open>readUInt64\<close>; \<open>BigInt(undefined)\<close> throws a TypeError.\<close>

function readUInt64_loop :: "byte list \<Rightarrow> int \<Rightarrow> nat \<Rightarrow> int \<Rightarrow> error + int" where
  "readUInt64_loop d off i v =
     (if i < 8 then
        (case at d (off + int i) of
           None \<Rightarrow> Inl TypeError
         | Some b \<Rightarrow> readUInt64_loop d off (i + 1) (v OR push_bit (i * 8) b))
      else Inr v)"
  by pat_completeness auto
termination
  by (relation "measure (\<lambda>(d, off, i, v). 8 - i)") auto

definition readUInt64 :: "PacketReader \<Rightarrow> (error + int) \<times> PacketReader" where
  "readUInt64 r =
     (if offset r + 8 > int (length (data r))
      then (Inl (Error ''PacketReader: Not enough data to read UInt64''), r)
      else
        case readUInt64_loop (data r) (offset r) 0 0 of
          Inl e \<Rightarrow> (Inl e, r)
        | Inr v \<Rightarrow> (Inr v, r\<lparr>offset := offset r + 8\<rparr>))"

definition readInt32 :: "PacketReader \<Rightarrow> (error + int) \<times> PacketReader" where
  "readInt32 r =
     (if offset r + 4 > int (length (data r))
      then (Inl (Error ''PacketReader: Not enough data to read Int32''), r)
      else
        case DataView_new (data r) (offset r) 4 of
          Inl e \<Rightarrow> (Inl e, r)
        | Inr view \<Rightarrow> (Inr (sint (le_word view :: 32 word)), r\<lparr>offset := offset r + 4\<rparr>))"

definition readInt64 :: "PacketReader \<Rightarrow> (error + int) \<times> PacketReader" where
  "readInt64 r =
     (if offset r + 8 > int (length (data r))
      then (Inl (Error ''PacketReader: Not enough data to read Int64''), r)
      else
        case DataView_new (data r) (offset r) 8 of
          Inl e \<Rightarrow> (Inl e, r)
        | Inr view \<Rightarrow> (Inr (sint (le_word view :: 64 word)), r\<lparr>offset := offset r + 8\<rparr>))"

definition readFloat32 :: "PacketReader \<Rightarrow> (error + float32) \<times> PacketReader" where
  "readFloat32 r =
     (if offset r + 4 > int (length (data r))
      then (Inl (Error ''PacketReader: Not enough data to read Float32''), r)
      else
        case DataView_new (data r) (offset r) 4 of
          Inl e \<Rightarrow> (Inl e, r)
        | Inr view \<Rightarrow> (Inr (le_word view), r\<lparr>offset := offset r + 4\<rparr>))"

definition readFloat64 :: "PacketReader \<Rightarrow> (error + float64) \<times> PacketReader" where
  "readFloat64 r =
     (if offset r + 8 > int (length (data r))
      then (Inl (Error ''PacketReader: Not enough data to read Float64''), r)
      else
        case DataView_new (data r) (offset r) 8 of
          Inl e \<Rightarrow> (Inl e, r)
        | Inr view \<Rightarrow> (Inr (le_word view), r\<lparr>offset := offset r + 8\<rparr>))"

text \<open>\<open>undefined !== 0\<close> is true.\<close>

definition readBool :: "PacketReader \<Rightarrow> (error + bool) \<times> PacketReader" where
  "readBool r =
     (case readUInt8 r of
        (Inl e, r') \<Rightarrow> (Inl e, r')
      | (Inr v, r') \<Rightarrow> (Inr (v \<noteq> Some 0), r'))"

definition readString :: "PacketReader \<Rightarrow> (error + jsstring) \<times> PacketReader" where
  "readString r =
     (case readUInt16 r of
        (Inl e, r1) \<Rightarrow> (Inl e, r1)
      | (Inr len, r1) \<Rightarrow>
          if offset r1 + len > int (length (data r1))
          then (Inl (Error ''PacketReader: Not enough data to read string''), r1)
          else
            let bytes = slice (data r1) (offset r1) (offset r1 + len)
            in (Inr (TextDecoder_decode bytes), r1\<lparr>offset := offset r1 + len\<rparr>))"

definition readBytes :: "int \<Rightarrow> PacketReader \<Rightarrow> (error + byte list) \<times> PacketReader" where
  "readBytes len r =
     (if offset r + len > int (length (data r))
      then (Inl (Error ''PacketReader: Not enough data to read bytes''), r)
      else
        let bytes = slice (data r) (offset r) (offset r + len)
        in (Inr bytes, r\<lparr>offset := offset r + len\<rparr>))"

definition isComplete :: "PacketReader \<Rightarrow> bool" where
  "isComplete r = (offset r = int (length (data r)))"

definition remaining :: "PacketReader \<Rightarrow> int" where
  "remaining r = int (length (data r)) - offset r"

definition reset :: "PacketReader \<Rightarrow> PacketReader" where
  "reset r = r\<lparr>offset := 0\<rparr>"

definition getOffset :: "PacketReader \<Rightarrow> int" where
  "getOffset r = offset r"

definition setOffset :: "int \<Rightarrow> PacketReader \<Rightarrow> (error + unit) \<times> PacketReader" where
  "setOffset off r =
     (if off < 0 \<or> off > int (length (data r))
      then (Inl (Error ''PacketReader: Invalid offset''), r)
      else (Inr (), r\<lparr>offset := off\<rparr>))"

section \<open>Vocabulary of the properties\<close>

text \<open>
  \<open>reader_after w w'\<close> is a reader over the unframed bytes of the writer \<open>w'\<close> whose
  cursor stands where the bytes of \<open>w\<close> end: the state a reader is in after it has read
  back, in order, everything that had been written when the writer was \<open>w\<close>.
\<close>

definition reader_after :: "PacketWriter \<Rightarrow> PacketWriter \<Rightarrow> PacketReader" where
  "reader_after w w' = \<lparr>data = fst (getData w'), offset = int (length (buffer w))\<rparr>"

text \<open>
  Sequences of calls: of the writer's extraction methods, and of its write methods on an
  engine with the given limit. \<open>apply_write\<close> keeps the writer a call leaves behind, also
  when the call throws.
\<close>

datatype getter = GetBytes | GetData | GetPacketId

fun call_getter :: "getter \<Rightarrow> PacketWriter \<Rightarrow> PacketWriter" where
  "call_getter GetBytes w = snd (getBytes w)"
| "call_getter GetData w = snd (getData w)"
| "call_getter GetPacketId w = snd (getPacketId w)"

datatype write_op =
    WriteUInt8 int | WriteUInt16 int | WriteUInt32 int | WriteUInt64 int
  | WriteInt32 int | WriteInt64 int | WriteFloat32 float32 | WriteFloat64 float64
  | WriteBool bool | WriteString jsstring | WriteBytes "byte list"

fun apply_write :: "nat \<Rightarrow> write_op \<Rightarrow> PacketWriter \<Rightarrow> PacketWriter" where
  "apply_write limit (WriteUInt8 v) w = writeUInt8 v w"
| "apply_write limit (WriteUInt16 v) w = writeUInt16 v w"
| "apply_write limit (WriteUInt32 v) w = writeUInt32 v w"
| "apply_write limit (WriteUInt64 v) w = writeUInt64 v w"
| "apply_write limit (WriteInt32 v) w = writeInt32 v w"
| "apply_write limit (WriteInt64 v) w = writeInt64 v w"
| "apply_write limit (WriteFloat32 v) w = writeFloat32 v w"
| "apply_write limit (WriteFloat64 v) w = writeFloat64 v w"
| "apply_write limit (WriteBool v) w = writeBool v w"
| "apply_write limit (WriteString v) w = snd (writeString limit v w)"
| "apply_write limit (WriteBytes v) w = snd (writeBytes limit v w)"

text \<open>The cursor invariant of the reader.\<close>

definition offset_in_bounds :: "PacketReader \<Rightarrow> bool" where
  "offset_in_bounds r = (0 \<le> offset r \<and> offset r \<le> int (length (data r)))"

text \<open>
  Strings. A Unicode scalar value is a code point up to U+10FFFF that is not a surrogate.
  A string is well formed when every surrogate code unit in it belongs to a pair, a lead
  followed by a trail.
\<close>

definition is_scalar :: "nat \<Rightarrow> bool" where
  "is_scalar c = (c \<le> 0x10FFFF \<and> \<not> is_surrogate c)"

fun well_formed_utf16 :: "nat list \<Rightarrow> bool" where
  "well_formed_utf16 [] = True"
| "well_formed_utf16 [u] = (\<not> is_surrogate u)"
| "well_formed_utf16 (u # l # us) =
     (if is_lead u \<and> is_trail l then well_formed_utf16 us
      else \<not> is_surrogate u \<and> well_formed_utf16 (l # us))"

definition well_formed :: "jsstring \<Rightarrow> bool" where
  "well_formed s = well_formed_utf16 (map unat s)"

definition starts_with_bom :: "jsstring \<Rightarrow> bool" where
  "starts_with_bom s = (case s of [] \<Rightarrow> False | u # rest \<Rightarrow> u = 0xFEFF)"

text \<open>Sequences of calls on a reader; \<open>step\<close> keeps the reader a call leaves behind.\<close>

datatype reader_op =
    ReadUInt8 | ReadUInt16 | ReadUInt32 | ReadUInt64 | ReadInt32 | ReadInt64
  | ReadFloat32 | ReadFloat64 | ReadBool | ReadString | ReadBytes int
  | Reset | SetOffset int

fun step :: "reader_op \<Rightarrow> PacketReader \<Rightarrow> PacketReader" where
  "step ReadUInt8 r = snd (readUInt8 r)"
| "step ReadUInt16 r = snd (readUInt16 r)"
| "step ReadUInt32 r = snd (readUInt32 r)"
| "step ReadUInt64 r = snd (readUInt64 r)"
| "step ReadInt32 r = snd (readInt32 r)"
| "step ReadInt64 r = snd (readInt64 r)"
| "step ReadFloat32 r = snd (readFloat32 r)"
| "step ReadFloat64 r = snd (readFloat64 r)"
| "step ReadBool r = snd (readBool r)"
| "step ReadString r = snd (readString r)"
| "step (ReadBytes n) r = snd (readBytes n r)"
| "step Reset r = reset r"
| "step (SetOffset v) r = snd (setOffset v r)"

section \<open>Lemmas: bitwise operators\<close>

lemma ToInt32_bit: "bit (ToInt32 v) n = bit v (min n 31)"
  by (auto simp add: ToInt32_def bit_sint_iff bit_simps min_def)

lemma ToUint32_eq: "ToUint32 v = take_bit 32 v"
  by (simp add: ToUint32_def uint_word_of_int take_bit_eq_mod)

lemma ToInt32_255: "ToInt32 255 = 255"
  by (simp add: ToInt32_def)

lemma and_255: "(x::int) AND 255 = take_bit 8 x"
proof -
  have "(255::int) = mask 8" by (simp add: mask_eq_exp_minus_1)
  then show ?thesis by (simp add: take_bit_eq_mask)
qed

lemma js_and_255: "js_and a 0xFF = take_bit 8 a"
  by (rule bit_eqI) (auto simp add: js_and_def ToInt32_255 and_255 bit_simps ToInt32_bit)

lemma take_bit_js_sar: "k \<le> 24 \<Longrightarrow> take_bit 8 (js_sar v k) = take_bit 8 (drop_bit k v)"
  by (rule bit_eqI) (auto simp add: js_sar_def bit_simps ToInt32_bit)

lemma js_u16:
  "js_or (take_bit 8 v) (js_shl (take_bit 8 (drop_bit 8 v)) 8) = take_bit 16 v"
  by (rule bit_eqI) (auto simp add: js_or_def js_shl_def bit_simps ToInt32_bit)

lemma js_u32:
  "js_shr (js_or (js_or (js_or (take_bit 8 v) (js_shl (take_bit 8 (drop_bit 8 v)) 8))
                        (js_shl (take_bit 8 (drop_bit 16 v)) 16))
                 (js_shl (take_bit 8 (drop_bit 24 v)) 24)) 0 = take_bit 32 v"
proof (rule bit_eqI)
  fix n :: nat
  consider "n < 8" | "8 \<le> n" "n < 16" | "16 \<le> n" "n < 24" | "24 \<le> n" by linarith
  then show "bit (js_shr (js_or (js_or (js_or (take_bit 8 v) (js_shl (take_bit 8 (drop_bit 8 v)) 8))
                        (js_shl (take_bit 8 (drop_bit 16 v)) 16))
                 (js_shl (take_bit 8 (drop_bit 24 v)) 24)) 0) n = bit (take_bit 32 v) n"
    by cases
      (auto simp add: js_or_def js_shl_def js_shr_def ToUint32_eq bit_simps ToInt32_bit)
qed

lemma js_byte0: "js_and v 0xFF = v mod 256"
  by (simp add: js_and_255 take_bit_eq_mod)

lemma js_byte1: "js_sar v 8 mod 256 = v div 256 mod 256"
  using take_bit_js_sar [of 8 v] by (simp add: take_bit_eq_mod drop_bit_eq_div)

lemma js_byte2: "js_sar v 16 mod 256 = v div 65536 mod 256"
  using take_bit_js_sar [of 16 v] by (simp add: take_bit_eq_mod drop_bit_eq_div)

lemma js_byte3: "js_sar v 24 mod 256 = v div 16777216 mod 256"
  using take_bit_js_sar [of 24 v] by (simp add: take_bit_eq_mod drop_bit_eq_div)

section \<open>Lemmas: the 64-bit loops\<close>

declare writeUInt64_loop.simps [simp del] readUInt64_loop.simps [simp del]

lemma writeUInt64_loop_eq:
  "writeUInt64_loop v 0 buf = buf @ map (\<lambda>i. take_bit 8 (drop_bit (8 * i) v)) [0..<8]"
  by (simp add: writeUInt64_loop.simps and_255 upt_rec numeral_eq_Suc)

lemma readUInt64_loop_eq:
  assumes "\<And>i. i < 8 \<Longrightarrow> at d (off + int i) = Some (take_bit 8 (drop_bit (8 * i) v))"
  shows "readUInt64_loop d off 0 0 = Inr (take_bit 64 v)"
proof -
  have "(take_bit 8 v OR push_bit 8 (take_bit 8 (drop_bit 8 v))
          OR push_bit 16 (take_bit 8 (drop_bit 16 v))
          OR push_bit 24 (take_bit 8 (drop_bit 24 v))
          OR push_bit 32 (take_bit 8 (drop_bit 32 v))
          OR push_bit 40 (take_bit 8 (drop_bit 40 v))
          OR push_bit 48 (take_bit 8 (drop_bit 48 v))
          OR push_bit 56 (take_bit 8 (drop_bit 56 v))) = take_bit 64 v"
  proof (rule bit_eqI)
    fix n :: nat
    consider "n < 8" | "8 \<le> n" "n < 16" | "16 \<le> n" "n < 24" | "24 \<le> n" "n < 32"
      | "32 \<le> n" "n < 40" | "40 \<le> n" "n < 48" | "48 \<le> n" "n < 56" | "56 \<le> n" by linarith
    then show "bit (take_bit 8 v OR push_bit 8 (take_bit 8 (drop_bit 8 v))
          OR push_bit 16 (take_bit 8 (drop_bit 16 v))
          OR push_bit 24 (take_bit 8 (drop_bit 24 v))
          OR push_bit 32 (take_bit 8 (drop_bit 32 v))
          OR push_bit 40 (take_bit 8 (drop_bit 40 v))
          OR push_bit 48 (take_bit 8 (drop_bit 48 v))
          OR push_bit 56 (take_bit 8 (drop_bit 56 v))) n = bit (take_bit 64 v) n"
      by cases (auto simp add: bit_simps)
  qed
  moreover have "at d (off + int i) = Some (take_bit 8 (drop_bit (8 * i) v))" if "i < 8" for i
    using assms that by simp
  ultimately show ?thesis
    using assms [of 0] assms [of 1] assms [of 2] assms [of 3]
      assms [of 4] assms [of 5] assms [of 6] assms [of 7]
    by (simp add: readUInt64_loop.simps or.assoc)
qed

section \<open>Lemmas: typed arrays and views\<close>

lemma bit_le_word:
  "bit (le_word bs :: 'a::len word) n \<longleftrightarrow>
     n < LENGTH('a) \<and> n div 8 < length bs \<and> bit (bs ! (n div 8)) (n mod 8)"
proof (induction bs arbitrary: n)
  case Nil
  then show ?case by simp
next
  case (Cons b bs)
  show ?case
  proof (cases "n < 8")
    case True
    then show ?thesis
      by (auto simp add: bit_simps dest: bit_imp_le_length)
  next
    case False
    then have "n div 8 = Suc ((n - 8) div 8)" "(n - 8) mod 8 = n mod 8"
      by (simp_all add: le_div_geq le_mod_geq)
    with False show ?thesis
      using Cons.IH [of "n - 8"]
      by (auto simp add: bit_simps dest: bit_imp_le_length)
  qed
qed

lemma le_word_le_bytes:
  "LENGTH('a::len) \<le> 8 * k \<Longrightarrow> le_word (le_bytes k (w :: 'a word)) = w"
proof (rule bit_word_eqI)
  fix n :: nat
  assume len: "LENGTH('a) \<le> 8 * k" and n: "n < LENGTH('a)"
  then have "n div 8 < k" by (simp add: less_mult_imp_div_less mult.commute)
  then show "bit (le_word (le_bytes k w) :: 'a word) n = bit w n"
    using n by (auto simp add: bit_le_word le_bytes_def bit_simps dest: bit_imp_le_length)
qed

lemma length_le_bytes: "length (le_bytes k w) = k"
  by (simp add: le_bytes_def)

lemma Uint8Array_from_uint: "Uint8Array_from (xs @ map uint bs) = Uint8Array_from xs @ bs"
  by (simp add: Uint8Array_from_def comp_def)

lemma length_Uint8Array_from: "length (Uint8Array_from xs) = length xs"
  by (simp add: Uint8Array_from_def)

lemma DataView_new_append:
  "length pre = n \<Longrightarrow> length bs = k \<Longrightarrow> DataView_new (pre @ bs) (int n) k = Inr bs"
  by (simp add: DataView_new_def)

lemma at_append_len:
  "length xs = n \<Longrightarrow> 0 \<le> i \<Longrightarrow> at (xs @ ys) (int n + i) = at ys i"
  by (auto simp add: at_def nth_append nat_add_distrib)

lemma at_append_len0:
  "length xs = n \<Longrightarrow> at (xs @ ys) (int n) = at ys 0"
  using at_append_len [of xs n 0 ys] by simp

lemma at_Cons_0: "at (b # bs) 0 = Some (uint b)"
  by (simp add: at_def)

lemma at_Cons_pos: "0 < i \<Longrightarrow> at (b # bs) i = at bs (i - 1)"
  by (auto simp add: at_def nat_diff_distrib')

lemmas at_simps = at_append_len at_append_len0 at_Cons_0 at_Cons_pos

section \<open>Lemmas: reading back what was written\<close>

lemma rt_uint8:
  "0 \<le> v \<Longrightarrow> v \<le> 255 \<Longrightarrow>
   readUInt8 (reader_after w (writeUInt8 v w)) =
     (Inr (Some v), reader_after (writeUInt8 v w) (writeUInt8 v w))"
  by (simp add: readUInt8_def reader_after_def writeUInt8_def getData_def Uint8Array_from_def
      at_simps js_and_255 uint_word_of_int_eq take_bit_int_eq_self)

lemma rt_uint16:
  "0 \<le> v \<Longrightarrow> v \<le> 65535 \<Longrightarrow>
   readUInt16 (reader_after w (writeUInt16 v w)) =
     (Inr v, reader_after (writeUInt16 v w) (writeUInt16 v w))"
  by (simp add: readUInt16_def reader_after_def writeUInt16_def getData_def Uint8Array_from_def
      at_simps js_and_255 take_bit_js_sar uint_word_of_int_eq js_u16 elem_bits_def take_bit_int_eq_self)

lemma rt_uint32:
  "0 \<le> v \<Longrightarrow> v \<le> 4294967295 \<Longrightarrow>
   readUInt32 (reader_after w (writeUInt32 v w)) =
     (Inr v, reader_after (writeUInt32 v w) (writeUInt32 v w))"
  by (simp add: readUInt32_def reader_after_def writeUInt32_def getData_def Uint8Array_from_def
      at_simps js_and_255 take_bit_js_sar uint_word_of_int_eq js_u32 elem_bits_def take_bit_int_eq_self)

lemma rt_uint64:
  assumes "0 \<le> v" "v < 2 ^ 64"
  shows "readUInt64 (reader_after w (writeUInt64 v w)) =
     (Inr v, reader_after (writeUInt64 v w) (writeUInt64 v w))"
proof -
  let ?d = "fst (getData (writeUInt64 v w))"
  have d: "?d = map word_of_int (buffer w) @
      map (\<lambda>i. word_of_int (take_bit 8 (drop_bit (8 * i) v))) [0..<8]"
    by (simp add: getData_def writeUInt64_def writeUInt64_loop_eq Uint8Array_from_def comp_def)
  have "at ?d (int (length (buffer w)) + int i) = Some (take_bit 8 (drop_bit (8 * i) v))"
    if "i < 8" for i
    using that unfolding d
    by (simp add: at_append_len) (simp add: at_def uint_word_of_int_eq)
  then have "readUInt64_loop ?d (int (length (buffer w))) 0 0 = Inr (take_bit 64 v)"
    by (rule readUInt64_loop_eq)
  moreover have "take_bit 64 v = v"
    using assms by (simp add: take_bit_int_eq_self)
  moreover have "length ?d = length (buffer w) + 8"
    unfolding d by simp
  moreover have "length (buffer (writeUInt64 v w)) = length (buffer w) + 8"
    by (simp add: writeUInt64_def writeUInt64_loop_eq)
  ultimately show ?thesis
    by (simp add: readUInt64_def reader_after_def)
qed

lemma rt_int32:
  assumes "- (2 ^ 31) \<le> v" "v < 2 ^ 31"
  shows "readInt32 (reader_after w (writeInt32 v w)) =
     (Inr v, reader_after (writeInt32 v w) (writeInt32 v w))"
proof -
  have "sint (word_of_int v :: 32 word) = v"
    using assms by (simp add: signed_of_int signed_take_bit_int_eq_self)
  then show ?thesis
    by (simp add: readInt32_def reader_after_def writeInt32_def getData_def Let_def
        Uint8Array_from_uint DataView_new_append length_le_bytes length_Uint8Array_from
        le_word_le_bytes)
qed

lemma rt_int64:
  assumes "- (2 ^ 63) \<le> v" "v < 2 ^ 63"
  shows "readInt64 (reader_after w (writeInt64 v w)) =
     (Inr v, reader_after (writeInt64 v w) (writeInt64 v w))"
proof -
  have "sint (word_of_int v :: 64 word) = v"
    using assms by (simp add: signed_of_int signed_take_bit_int_eq_self)
  then show ?thesis
    by (simp add: readInt64_def reader_after_def writeInt64_def getData_def Let_def
        Uint8Array_from_uint DataView_new_append length_le_bytes length_Uint8Array_from
        le_word_le_bytes)
qed

lemma rt_float32:
  "readFloat32 (reader_after w (writeFloat32 v w)) =
     (Inr v, reader_after (writeFloat32 v w) (writeFloat32 v w))"
  by (simp add: readFloat32_def reader_after_def writeFloat32_def getData_def Let_def
        Uint8Array_from_uint DataView_new_append length_le_bytes length_Uint8Array_from
        le_word_le_bytes)

lemma rt_float64:
  "readFloat64 (reader_after w (writeFloat64 v w)) =
     (Inr v, reader_after (writeFloat64 v w) (writeFloat64 v w))"
  by (simp add: readFloat64_def reader_after_def writeFloat64_def getData_def Let_def
        Uint8Array_from_uint DataView_new_append length_le_bytes length_Uint8Array_from
        le_word_le_bytes)

lemma rt_bool:
  "readBool (reader_after w (writeBool v w)) =
     (Inr v, reader_after (writeBool v w) (writeBool v w))"
  by (simp add: readBool_def readUInt8_def reader_after_def writeBool_def getData_def
      Uint8Array_from_def at_simps)

section \<open>Lemmas: the writer\<close>

lemma call_getter_id: "call_getter q w = w"
  by (cases q) (simp_all add: getBytes_def getData_def getPacketId_def Let_def)

lemma apply_write_appends:
  "\<exists>ys. buffer (apply_write limit op w) = buffer w @ ys"
  by (cases op)
    (simp_all add: writeUInt8_def writeUInt16_def writeUInt32_def writeUInt64_def
      writeUInt64_loop_eq writeInt32_def writeInt64_def writeFloat32_def writeFloat64_def
      writeBool_def writeString_def writeBytes_def push_spread_def Let_def)

lemma apply_write_packetId: "packetId (apply_write limit op w) = packetId w"
  by (cases op)
    (simp_all add: writeUInt8_def writeUInt16_def writeUInt32_def writeUInt64_def
      writeInt32_def writeInt64_def writeFloat32_def writeFloat64_def
      writeBool_def writeString_def writeBytes_def push_spread_def Let_def)

lemma fold_apply_write:
  "(\<exists>ys. buffer (fold (apply_write limit) ops w) = buffer w @ ys) \<and>
   packetId (fold (apply_write limit) ops w) = packetId w"
proof (induction ops arbitrary: w)
  case Nil
  then show ?case by simp
next
  case (Cons op ops)
  obtain ys where ys: "buffer (apply_write limit op w) = buffer w @ ys"
    using apply_write_appends by blast
  from Cons.IH [of "apply_write limit op w"] obtain zs where
    "buffer (fold (apply_write limit) ops (apply_write limit op w)) =
       buffer (apply_write limit op w) @ zs"
    "packetId (fold (apply_write limit) ops (apply_write limit op w)) =
       packetId (apply_write limit op w)"
    by blast
  with ys show ?case
    by (simp add: apply_write_packetId)
qed

lemma buffer_new:
  "buffer (PacketWriter_new pid) = [take_bit 8 pid, take_bit 8 (drop_bit 8 pid)]"
  by (simp add: PacketWriter_new_def writeUInt16_def js_and_255 take_bit_js_sar)

lemma readUInt16_prefix:
  "readUInt16 (PacketReader_new
      (word_of_int (take_bit 8 v) # word_of_int (take_bit 8 (drop_bit 8 v)) # rest)) =
   (Inr (v mod 65536),
    \<lparr>data = word_of_int (take_bit 8 v) # word_of_int (take_bit 8 (drop_bit 8 v)) # rest,
     offset = 2\<rparr>)"
  by (simp add: readUInt16_def PacketReader_new_def at_simps elem_bits_def
      uint_word_of_int_eq js_u16) (simp add: take_bit_eq_mod)

lemma getBytes_eq:
  "fst (getBytes w) =
     word_of_int (take_bit 8 (int (length (buffer w)))) #
     word_of_int (take_bit 8 (drop_bit 8 (int (length (buffer w))))) #
     Uint8Array_from (buffer w)"
  by (simp add: getBytes_def Let_def Uint8Array_set_def js_and_255 take_bit_js_sar
      length_Uint8Array_from)

lemma framed_header:
  "fst (readUInt16 (PacketReader_new (fst (getBytes w)))) =
     Inr (int (length (fst (getData w))) mod 65536)"
  by (simp add: getBytes_eq readUInt16_prefix getData_def length_Uint8Array_from)

section \<open>Lemmas: the concrete packet\<close>

lemma ascii_Hello: "ascii ''Hello'' = [0x48, 0x65, 0x6C, 0x6C, 0x6F]"
  by (simp add: ascii_def)

lemma encode_Hello: "TextEncoder_encode [0x48, 0x65, 0x6C, 0x6C, 0x6F] = [0x48, 0x65, 0x6C, 0x6C, 0x6F]"
  by (simp add: TextEncoder_encode_def utf8_encode_def utf8_bytes_def is_lead_def is_surrogate_def)

lemma decode_Hello: "TextDecoder_decode [0x48, 0x65, 0x6C, 0x6C, 0x6F] = [0x48, 0x65, 0x6C, 0x6C, 0x6F]"
  by (simp add: TextDecoder_decode_def strip_bom_def from_scalars_def utf16_units_def)

lemma hello_written:
  "5 \<le> limit \<Longrightarrow>
   fst (writeString limit [0x48, 0x65, 0x6C, 0x6C, 0x6F] (PacketWriter_new 10001)) = Inr ()"
  by (simp add: writeString_def push_spread_def Let_def encode_Hello)

lemma hello_buffer:
  "5 \<le> limit \<Longrightarrow>
   buffer (writeBool True (writeUInt32 12345
     (snd (writeString limit [0x48, 0x65, 0x6C, 0x6C, 0x6F] (PacketWriter_new 10001))))) =
     [0x11, 0x27, 0x05, 0x00, 0x48, 0x65, 0x6C, 0x6C, 0x6F, 0x39, 0x30, 0x00, 0x00, 0x01]"
  by (simp add: writeBool_def writeUInt32_def writeString_def push_spread_def encode_Hello
     writeUInt16_def PacketWriter_new_def js_byte0 js_byte1 js_byte2 js_byte3)

lemma hello_read_id: "readUInt16 (PacketReader_new [0x11, 0x27, 0x05, 0x00, 0x48, 0x65, 0x6C, 0x6C, 0x6F, 0x39, 0x30, 0x00, 0x00, 0x01])
  = (Inr 10001, \<lparr>data = [0x11, 0x27, 0x05, 0x00, 0x48, 0x65, 0x6C, 0x6C, 0x6F, 0x39, 0x30, 0x00, 0x00, 0x01], offset = 2\<rparr>)"
  by (simp add: readUInt16_def PacketReader_new_def at_def elem_bits_def
      js_or_def js_shl_def ToInt32_def)

lemma hello_read_string: "readString \<lparr>data = [0x11, 0x27, 0x05, 0x00, 0x48, 0x65, 0x6C, 0x6C, 0x6F, 0x39, 0x30, 0x00, 0x00, 0x01], offset = 2\<rparr>
  = (Inr [0x48, 0x65, 0x6C, 0x6C, 0x6F], \<lparr>data = [0x11, 0x27, 0x05, 0x00, 0x48, 0x65, 0x6C, 0x6C, 0x6F, 0x39, 0x30, 0x00, 0x00, 0x01], offset = 9\<rparr>)"
  by (simp add: readString_def readUInt16_def at_def elem_bits_def
      js_or_def js_shl_def ToInt32_def slice_def decode_Hello)

lemma hello_read_uint32: "readUInt32 \<lparr>data = [0x11, 0x27, 0x05, 0x00, 0x48, 0x65, 0x6C, 0x6C, 0x6F, 0x39, 0x30, 0x00, 0x00, 0x01], offset = 9\<rparr>
  = (Inr 12345, \<lparr>data = [0x11, 0x27, 0x05, 0x00, 0x48, 0x65, 0x6C, 0x6C, 0x6F, 0x39, 0x30, 0x00, 0x00, 0x01], offset = 13\<rparr>)"
  by (simp add: readUInt32_def at_def elem_bits_def
      js_or_def js_shl_def js_shr_def ToInt32_def ToUint32_def)

lemma hello_read_bool: "readBool \<lparr>data = [0x11, 0x27, 0x05, 0x00, 0x48, 0x65, 0x6C, 0x6C, 0x6F, 0x39, 0x30, 0x00, 0x00, 0x01], offset = 13\<rparr>
  = (Inr True, \<lparr>data = [0x11, 0x27, 0x05, 0x00, 0x48, 0x65, 0x6C, 0x6C, 0x6F, 0x39, 0x30, 0x00, 0x00, 0x01], offset = 14\<rparr>)"
  by (simp add: readBool_def readUInt8_def at_def)

section \<open>Lemmas: UTF-8\<close>

lemma mod_add_mult: "q < m \<Longrightarrow> (k * m + q) mod m = (q::nat)"
  by simp

lemma utf8_decode_1:
  assumes "c < 0x80"
  shows "utf8_decode 0 0 0 0x80 0xBF (c # rest) = c # utf8_decode 0 0 0 0x80 0xBF rest"
  using assms by simp

lemma utf8_decode_2:
  assumes "2 \<le> q" "q < 32" "r < 64"
  shows "utf8_decode 0 0 0 0x80 0xBF ((0xC0 + q) # (0x80 + r) # rest) =
           (q * 64 + r) # utf8_decode 0 0 0 0x80 0xBF rest"
proof -
  have "(0xC0 + q) mod 0x20 = q" "(0x80 + r) mod 0x40 = r"
    using assms mod_add_mult [of q 32 6] mod_add_mult [of r 64 2] by simp_all
  then show ?thesis using assms by simp
qed

lemma utf8_decode_3:
  assumes "q2 < 16" "q1 < 64" "r < 64" "q2 = 0 \<longrightarrow> 32 \<le> q1" "q2 = 13 \<longrightarrow> q1 < 32"
  shows "utf8_decode 0 0 0 0x80 0xBF ((0xE0 + q2) # (0x80 + q1) # (0x80 + r) # rest) =
           ((q2 * 64 + q1) * 64 + r) # utf8_decode 0 0 0 0x80 0xBF rest"
proof -
  have "(0xE0 + q2) mod 0x10 = q2" "(0x80 + q1) mod 0x40 = q1" "(0x80 + r) mod 0x40 = r"
    using assms mod_add_mult [of q2 16 14] mod_add_mult [of q1 64 2] mod_add_mult [of r 64 2]
    by simp_all
  then show ?thesis using assms by auto
qed

lemma utf8_decode_4:
  assumes "q3 < 5" "q2 < 64" "q1 < 64" "r < 64" "q3 = 0 \<longrightarrow> 16 \<le> q2" "q3 = 4 \<longrightarrow> q2 < 16"
  shows "utf8_decode 0 0 0 0x80 0xBF ((0xF0 + q3) # (0x80 + q2) # (0x80 + q1) # (0x80 + r) # rest) =
           (((q3 * 64 + q2) * 64 + q1) * 64 + r) # utf8_decode 0 0 0 0x80 0xBF rest"
proof -
  have "(0xF0 + q3) mod 0x08 = q3" "(0x80 + q2) mod 0x40 = q2"
    "(0x80 + q1) mod 0x40 = q1" "(0x80 + r) mod 0x40 = r"
    using assms mod_add_mult [of q3 8 30] mod_add_mult [of q2 64 2]
      mod_add_mult [of q1 64 2] mod_add_mult [of r 64 2]
    by simp_all
  then show ?thesis using assms by auto
qed

declare utf8_decode.simps [simp del]

lemma utf8_decode_Nil: "utf8_decode 0 0 0 0x80 0xBF [] = []"
  by (simp add: utf8_decode.simps)

lemma utf8_decode_cut_2:
  assumes "2 \<le> q" "q < 32"
  shows "utf8_decode 0 0 0 0x80 0xBF [0xC0 + q] = [0xFFFD]"
  using assms by (simp add: utf8_decode.simps)

lemma utf8_decode_cut_3a:
  assumes "q2 < 16"
  shows "utf8_decode 0 0 0 0x80 0xBF [0xE0 + q2] = [0xFFFD]"
  using assms by (auto simp add: utf8_decode.simps)

lemma utf8_decode_cut_3b:
  assumes "q2 < 16" "q1 < 64" "q2 = 0 \<longrightarrow> 32 \<le> q1" "q2 = 13 \<longrightarrow> q1 < 32"
  shows "utf8_decode 0 0 0 0x80 0xBF [0xE0 + q2, 0x80 + q1] = [0xFFFD]"
  using assms by (auto simp add: utf8_decode.simps)

lemma utf8_decode_cut_4a:
  assumes "q3 < 5"
  shows "utf8_decode 0 0 0 0x80 0xBF [0xF0 + q3] = [0xFFFD]"
  using assms by (auto simp add: utf8_decode.simps)

lemma utf8_decode_cut_4b:
  assumes "q3 < 5" "q2 < 64" "q3 = 0 \<longrightarrow> 16 \<le> q2" "q3 = 4 \<longrightarrow> q2 < 16"
  shows "utf8_decode 0 0 0 0x80 0xBF [0xF0 + q3, 0x80 + q2] = [0xFFFD]"
  using assms by (auto simp add: utf8_decode.simps)

lemma utf8_decode_cut_4c:
  assumes "q3 < 5" "q2 < 64" "q1 < 64" "q3 = 0 \<longrightarrow> 16 \<le> q2" "q3 = 4 \<longrightarrow> q2 < 16"
  shows "utf8_decode 0 0 0 0x80 0xBF [0xF0 + q3, 0x80 + q2, 0x80 + q1] = [0xFFFD]"
  using assms by (auto simp add: utf8_decode.simps)

lemma digit_split: "(n::nat) div 64 = k \<Longrightarrow> n = k * 64 + n mod 64"
  by (metis div_mult_mod_eq)

lemma utf8_bytes_cases:
  assumes "is_scalar c"
  obtains
    (one) "c < 0x80" "utf8_bytes c = [c]"
  | (two) q r where "2 \<le> q" "q < 32" "r < 64"
      "utf8_bytes c = [0xC0 + q, 0x80 + r]" "c = q * 64 + r"
  | (three) q2 q1 r where "q2 < 16" "q1 < 64" "r < 64"
      "q2 = 0 \<longrightarrow> 32 \<le> q1" "q2 = 13 \<longrightarrow> q1 < 32"
      "utf8_bytes c = [0xE0 + q2, 0x80 + q1, 0x80 + r]" "c = (q2 * 64 + q1) * 64 + r"
  | (four) q3 q2 q1 r where "q3 < 5" "q2 < 64" "q1 < 64" "r < 64"
      "q3 = 0 \<longrightarrow> 16 \<le> q2" "q3 = 4 \<longrightarrow> q2 < 16"
      "utf8_bytes c = [0xF0 + q3, 0x80 + q2, 0x80 + q1, 0x80 + r]"
      "c = ((q3 * 64 + q2) * 64 + q1) * 64 + r"
proof -
  define r where "r = c mod 64"
  define x where "x = c div 64"
  define y where "y = x div 64"
  have c: "x * 64 + r = c" and r: "r < 64"
    by (simp_all add: r_def x_def)
  have x: "y * 64 + x mod 64 = x" and x1: "x mod 64 < 64"
    by (simp_all add: y_def)
  have y: "y div 64 * 64 + y mod 64 = y" and y1: "y mod 64 < 64"
    by simp_all
  have d12: "c div 0x1000 = y" and d18: "c div 0x40000 = y div 64"
    by (simp_all add: y_def x_def div_mult2_eq [symmetric])
  consider "c < 0x80" | "0x80 \<le> c" "c < 0x800" | "0x800 \<le> c" "c < 0x10000" | "0x10000 \<le> c"
    by linarith
  then show ?thesis
  proof cases
    case 1
    then show ?thesis by (intro one) (simp_all add: utf8_bytes_def)
  next
    case 2
    then have b: "utf8_bytes c = [0xC0 + x, 0x80 + r]"
      by (simp add: utf8_bytes_def x_def r_def)
    from 2 have "2 \<le> x" "x < 32" using c r by linarith+
    then show ?thesis using r b c by (intro two [of x r]) simp_all
  next
    case 3
    then have b: "utf8_bytes c = [0xE0 + y, 0x80 + x mod 64, 0x80 + r]"
      by (simp add: utf8_bytes_def d12 x_def r_def)
    from 3 have "32 \<le> x" "x < 1024" using c r by linarith+
    then have y16: "y < 16" using x x1 by linarith
    have lo: "y = 0 \<longrightarrow> 32 \<le> x mod 64"
      using digit_split [of x 0] \<open>32 \<le> x\<close> by (auto simp add: y_def)
    have "x < 864 \<or> 896 \<le> x"
      using assms c r by (auto simp add: is_scalar_def is_surrogate_def)
    then have hi: "y = 13 \<longrightarrow> x mod 64 < 32"
      using digit_split [of x 13] by (auto simp add: y_def)
    have "c = (y * 64 + x mod 64) * 64 + r" unfolding x c ..
    with y16 x1 r lo hi b show ?thesis by (intro three [of y "x mod 64" r])
  next
    case 4
    then have b: "utf8_bytes c = [0xF0 + y div 64, 0x80 + y mod 64, 0x80 + x mod 64, 0x80 + r]"
      by (simp add: utf8_bytes_def d12 d18 x_def r_def)
    have "c \<le> 0x10FFFF" using assms by (simp add: is_scalar_def)
    with 4 have "1024 \<le> x" "x < 17408" using c r by linarith+
    then have "16 \<le> y" "y < 272" using x x1 by linarith+
    then have q3: "y div 64 < 5" using y y1 by linarith
    have lo: "y div 64 = 0 \<longrightarrow> 16 \<le> y mod 64"
      using digit_split [of y 0] \<open>16 \<le> y\<close> by auto
    have hi: "y div 64 = 4 \<longrightarrow> y mod 64 < 16"
      using digit_split [of y 4] \<open>y < 272\<close> by auto
    have "c = ((y div 64 * 64 + y mod 64) * 64 + x mod 64) * 64 + r" unfolding y x c ..
    with q3 y1 x1 r lo hi b show ?thesis
      by (intro four [of "y div 64" "y mod 64" "x mod 64" r])
  qed
qed

lemma utf8_decode_char:
  assumes "is_scalar c"
  shows "utf8_decode 0 0 0 0x80 0xBF (utf8_bytes c @ rest) = c # utf8_decode 0 0 0 0x80 0xBF rest"
  using assms
proof (cases rule: utf8_bytes_cases)
  case one
  then show ?thesis by (simp add: utf8_decode_1)
next
  case (two q r)
  then show ?thesis by (simp add: utf8_decode_2)
next
  case (three q2 q1 r)
  then show ?thesis by (simp add: utf8_decode_3)
next
  case (four q3 q2 q1 r)
  then show ?thesis by (simp add: utf8_decode_4)
qed

lemma utf8_decode_partial:
  assumes "is_scalar c" "0 < m" "m < length (utf8_bytes c)"
  shows "utf8_decode 0 0 0 0x80 0xBF (take m (utf8_bytes c)) = [0xFFFD]"
  using assms(1)
proof (cases rule: utf8_bytes_cases)
  case one
  with assms show ?thesis by simp
next
  case (two q r)
  with assms have "m = 1" by simp
  with two show ?thesis by (simp add: utf8_decode_cut_2)
next
  case (three q2 q1 r)
  with assms consider "m = 1" | "m = 2" by fastforce
  then show ?thesis
  proof cases
    case 1
    with three(6) utf8_decode_cut_3a [OF three(1)] show ?thesis by simp
  next
    case 2
    with three(6) utf8_decode_cut_3b [OF three(1,2,4,5)] show ?thesis by simp
  qed
next
  case (four q3 q2 q1 r)
  with assms consider "m = 1" | "m = 2" | "m = 3" by fastforce
  then show ?thesis
  proof cases
    case 1
    with four(7) utf8_decode_cut_4a [OF four(1)] show ?thesis by simp
  next
    case 2
    with four(7) utf8_decode_cut_4b [OF four(1,2,5,6)] show ?thesis by simp
  next
    case 3
    with four(7) utf8_decode_cut_4c [OF four(1,2,3,5,6)] show ?thesis
      by (simp add: numeral_3_eq_3)
  qed
qed

lemma utf8_decode_encode:
  "\<forall>c\<in>set cs. is_scalar c \<Longrightarrow>
   utf8_decode 0 0 0 0x80 0xBF (utf8_encode cs @ rest) = cs @ utf8_decode 0 0 0 0x80 0xBF rest"
  by (induction cs) (simp_all add: utf8_encode_def utf8_decode_char)

lemma utf8_bytes_bound:
  assumes "c \<le> 0x10FFFF" "b \<in> set (utf8_bytes c)"
  shows "b < 256"
proof -
  have m: "n mod 64 < 64" for n :: nat by simp
  have "c div 0x40 < 32" if "c < 0x800" using that by (simp add: less_mult_imp_div_less)
  moreover have "c div 0x1000 < 16" if "c < 0x10000"
    using that by (simp add: less_mult_imp_div_less)
  moreover have "c div 0x40000 < 5"
    using assms(1) by (simp add: less_mult_imp_div_less)
  ultimately show ?thesis
    using assms(2) m [of c] m [of "c div 0x40"] m [of "c div 0x1000"]
    by (auto simp add: utf8_bytes_def split: if_splits)
qed

lemma utf8_encode_bound:
  "\<forall>c\<in>set cs. is_scalar c \<Longrightarrow> \<forall>b\<in>set (utf8_encode cs). b < 256"
  by (auto simp add: utf8_encode_def is_scalar_def dest: utf8_bytes_bound)

lemma unat_of_nat_bytes:
  "\<forall>b\<in>set bs. b < 256 \<Longrightarrow> map unat (map of_nat bs :: byte list) = bs"
  by (induction bs) (simp_all add: unat_of_nat)

lemma is_scalar_FFFD: "is_scalar 0xFFFD"
  by (simp add: is_scalar_def is_surrogate_def)

lemma is_scalar_unit: "u < 0x10000 \<Longrightarrow> \<not> is_surrogate u \<Longrightarrow> is_scalar u"
  by (simp add: is_scalar_def)

lemma is_scalar_pair:
  assumes "is_lead u" "is_trail l"
  shows "is_scalar (0x10000 + (u - 0xD800) * 0x400 + (l - 0xDC00))"
proof -
  define a where "a = u - 0xD800"
  define b where "b = l - 0xDC00"
  have "a \<le> 0x3FF" "b \<le> 0x3FF"
    using assms unfolding a_def b_def is_lead_def is_trail_def by linarith+
  then have "0x10000 + a * 0x400 + b \<le> 0x10FFFF" "0xDFFF < 0x10000 + a * 0x400 + b"
    by linarith+
  then show ?thesis
    unfolding is_scalar_def is_surrogate_def a_def b_def by linarith
qed

lemma length_utf8_bytes_FFFD: "length (utf8_bytes 0xFFFD) = 3"
  by (simp add: utf8_bytes_def)

lemma truncated_decode:
  assumes "\<forall>c\<in>set cs. is_scalar c"
  shows "length (utf8_decode 0 0 0 0x80 0xBF (take n (utf8_encode cs))) \<le> length cs \<and>
    (\<forall>x\<in>set (utf8_decode 0 0 0 0x80 0xBF (take n (utf8_encode cs))). is_scalar x) \<and>
    (n < length (utf8_encode cs) \<longrightarrow>
       utf8_decode 0 0 0 0x80 0xBF (take n (utf8_encode cs)) = cs \<longrightarrow>
       length (utf8_encode cs) \<le> n + 2)"
  using assms
proof (induction cs arbitrary: n)
  case Nil
  then show ?case by (simp add: utf8_encode_def utf8_decode_Nil)
next
  case (Cons c cs)
  then have c: "is_scalar c" and cs: "\<forall>c\<in>set cs. is_scalar c" by simp_all
  have e: "utf8_encode (c # cs) = utf8_bytes c @ utf8_encode cs"
    by (simp add: utf8_encode_def)
  note ih = Cons.IH [OF cs, of "n - length (utf8_bytes c)"]
  consider "n = 0" | "0 < n" "n < length (utf8_bytes c)" | "length (utf8_bytes c) \<le> n"
    by linarith
  then show ?case
  proof cases
    case 1
    then show ?thesis by (simp add: utf8_decode_Nil)
  next
    case 2
    then have d: "utf8_decode 0 0 0 0x80 0xBF (take n (utf8_encode (c # cs))) = [0xFFFD]"
      unfolding e using utf8_decode_partial [OF c, of n] by simp
    have "length (utf8_encode (c # cs)) \<le> n + 2" if "[0xFFFD] = c # cs"
    proof -
      from that have "c = 0xFFFD" "cs = []" by simp_all
      with 2 show ?thesis
        by (simp add: e utf8_encode_def length_utf8_bytes_FFFD)
    qed
    then show ?thesis
      unfolding d by (auto simp add: is_scalar_FFFD)
  next
    case 3
    then have d: "utf8_decode 0 0 0 0x80 0xBF (take n (utf8_encode (c # cs))) =
        c # utf8_decode 0 0 0 0x80 0xBF (take (n - length (utf8_bytes c)) (utf8_encode cs))"
      unfolding e using 3 by (simp add: utf8_decode_char [OF c])
    from 3 ih c show ?thesis
      unfolding d by (auto simp add: e)
  qed
qed

lemma utf8_encode_ascii: "\<forall>u\<in>set us. u < 0x80 \<Longrightarrow> utf8_encode us = us"
  by (induction us) (simp_all add: utf8_encode_def utf8_bytes_def)

section \<open>Lemmas: UTF-16\<close>

lemma to_scalars_not_lead:
  "\<not> is_lead u \<Longrightarrow>
   to_scalars (u # us) = (if is_surrogate u then 0xFFFD else u) # to_scalars us"
  by (cases us) simp_all

lemma to_scalars_pair:
  "is_lead u \<Longrightarrow> is_trail l \<Longrightarrow>
   to_scalars (u # l # us) = (0x10000 + (u - 0xD800) * 0x400 + (l - 0xDC00)) # to_scalars us"
  by simp

lemma to_scalars_is_scalar:
  "\<forall>u\<in>set us. u < 0x10000 \<Longrightarrow> \<forall>c\<in>set (to_scalars us). is_scalar c"
proof (induction us rule: to_scalars.induct)
  case 1
  then show ?case by simp
next
  case (2 u)
  then show ?case by (simp add: is_scalar_FFFD is_scalar_unit)
next
  case (3 u l us)
  show ?case
  proof (cases "is_lead u \<and> is_trail l")
    case True
    with 3 show ?thesis by (simp add: is_scalar_pair del: is_scalar_def)
  next
    case False
    with 3 show ?thesis by (auto simp add: is_scalar_FFFD is_scalar_unit)
  qed
qed

lemma from_scalars_to_scalars:
  "\<forall>u\<in>set us. u < 0x10000 \<Longrightarrow> well_formed_utf16 us \<Longrightarrow>
   from_scalars (to_scalars us) = us"
proof (induction us rule: to_scalars.induct)
  case 1
  then show ?case by (simp add: from_scalars_def)
next
  case (2 u)
  then show ?case by (simp add: from_scalars_def utf16_units_def)
next
  case (3 u l us)
  show ?case
  proof (cases "is_lead u \<and> is_trail l")
    case True
    then have "(u - 0xD800) * 0x400 + (l - 0xDC00) < 0x100000" "l - 0xDC00 < 0x400"
      by (auto simp add: is_lead_def is_trail_def)
    then have "((u - 0xD800) * 0x400 + (l - 0xDC00)) div 0x400 = u - 0xD800"
      "((u - 0xD800) * 0x400 + (l - 0xDC00)) mod 0x400 = l - 0xDC00"
      by simp_all
    with True 3 show ?thesis
      by (simp add: from_scalars_def utf16_units_def is_lead_def is_trail_def)
  next
    case False
    with 3 show ?thesis
      by (auto simp add: from_scalars_def utf16_units_def)
  qed
qed

lemma to_scalars_from_scalars:
  "\<forall>c\<in>set cs. is_scalar c \<Longrightarrow> to_scalars (from_scalars cs) = cs"
proof (induction cs)
  case Nil
  then show ?case by (simp add: from_scalars_def)
next
  case (Cons c cs)
  then have ih: "to_scalars (from_scalars cs) = cs" and c: "is_scalar c" by simp_all
  show ?case
  proof (cases "c < 0x10000")
    case True
    with c have "\<not> is_lead c" "\<not> is_surrogate c"
      by (auto simp add: is_scalar_def is_surrogate_def is_lead_def)
    with True ih show ?thesis
      by (simp add: from_scalars_def utf16_units_def to_scalars_not_lead)
  next
    case False
    define d where "d = c - 0x10000"
    have d: "d < 0x100000" "c = 0x10000 + d"
      using False c unfolding d_def is_scalar_def by linarith+
    then have "d div 0x400 < 0x400" by (simp add: less_mult_imp_div_less)
    moreover have "d mod 0x400 < 0x400" by simp
    ultimately have "is_lead (0xD800 + d div 0x400)" "is_trail (0xDC00 + d mod 0x400)"
      by (simp_all add: is_lead_def is_trail_def)
    moreover have "d div 0x400 * 0x400 + d mod 0x400 = d" by simp
    ultimately show ?thesis
      using False ih d
      by (simp add: from_scalars_def utf16_units_def to_scalars_pair d_def [symmetric]
          del: to_scalars.simps)
  qed
qed

lemma to_scalars_head:
  "us \<noteq> [] \<Longrightarrow> hd us \<noteq> 0xFEFF \<Longrightarrow> to_scalars us \<noteq> [] \<and> hd (to_scalars us) \<noteq> 0xFEFF"
  by (induction us rule: to_scalars.induct) (auto simp add: is_lead_def)

lemma to_scalars_plain:
  "\<forall>u\<in>set us. \<not> is_surrogate u \<Longrightarrow> to_scalars us = us"
  by (induction us rule: to_scalars.induct) (auto simp add: is_surrogate_def is_lead_def)

lemma strip_bom_id: "cs = [] \<or> hd cs \<noteq> 0xFEFF \<Longrightarrow> strip_bom cs = cs"
  by (cases cs) (simp_all add: strip_bom_def)

lemma strip_bom_cases: "strip_bom D = D \<or> length (strip_bom D) < length D"
  by (cases D) (simp_all add: strip_bom_def)

lemma set_strip_bom: "set (strip_bom D) \<subseteq> set D"
  by (cases D) (auto simp add: strip_bom_def)

lemma utf16_units_bound:
  assumes "is_scalar c" "u \<in> set (utf16_units c)"
  shows "u < 0x10000"
proof (cases "c < 0x10000")
  case True
  with assms show ?thesis by (simp add: utf16_units_def)
next
  case False
  define d where "d = c - 0x10000"
  have "d < 0x100000"
    using False assms(1) unfolding d_def is_scalar_def by linarith
  then have "d div 0x400 < 0x400" by (simp add: less_mult_imp_div_less)
  moreover have "d mod 0x400 < 0x400" by simp
  ultimately show ?thesis
    using False assms(2) by (auto simp add: utf16_units_def d_def [symmetric])
qed

lemma from_scalars_bound:
  "\<forall>c\<in>set cs. is_scalar c \<Longrightarrow> \<forall>u\<in>set (from_scalars cs). u < 0x10000"
  by (auto simp add: from_scalars_def dest: utf16_units_bound)

lemma unat_of_nat_units:
  "\<forall>u\<in>set us. u < 0x10000 \<Longrightarrow> map unat (map of_nat us :: jsstring) = us"
  by (induction us) (simp_all add: unat_of_nat)

lemma unat_units_bound: "\<forall>u\<in>set (map unat (s :: jsstring)). u < 0x10000"
proof
  fix u assume "u \<in> set (map unat s)"
  then obtain w :: "16 word" where "u = unat w" by auto
  then show "u < 0x10000" using unsigned_less [of w] by simp
qed

section \<open>Lemmas: TextEncoder and TextDecoder\<close>

lemma encode_scalars:
  "map unat (TextEncoder_encode s) = utf8_encode (to_scalars (map unat s))"
  unfolding TextEncoder_encode_def
  by (rule unat_of_nat_bytes, rule utf8_encode_bound, rule to_scalars_is_scalar,
      rule unat_units_bound)

lemma TextDecoder_decode_encode:
  assumes "well_formed s" "\<not> starts_with_bom s"
  shows "TextDecoder_decode (TextEncoder_encode s) = s"
proof -
  let ?S = "to_scalars (map unat s)"
  have sc: "\<forall>c\<in>set ?S. is_scalar c"
    by (rule to_scalars_is_scalar, rule unat_units_bound)
  have "utf8_decode 0 0 0 0x80 0xBF (map unat (TextEncoder_encode s)) = ?S"
    using utf8_decode_encode [OF sc, of "[]"] by (simp add: encode_scalars utf8_decode_Nil)
  moreover have "strip_bom ?S = ?S"
  proof (cases s)
    case Nil
    then show ?thesis by (simp add: strip_bom_def)
  next
    case (Cons u rest)
    with assms(2) have "u \<noteq> 0xFEFF" by (simp add: starts_with_bom_def)
    then have "unat u \<noteq> 0xFEFF"
      by (metis of_nat_numeral of_nat_unat ucast_id)
    with Cons have "map unat s \<noteq> []" "hd (map unat s) \<noteq> 0xFEFF" by simp_all
    from to_scalars_head [OF this] show ?thesis by (simp add: strip_bom_id)
  qed
  moreover have "from_scalars ?S = map unat s"
    using assms(1) by (simp add: from_scalars_to_scalars unat_units_bound well_formed_def)
  ultimately show ?thesis
    by (simp add: TextDecoder_decode_def comp_def)
qed

lemma truncated_string_differs:
  assumes "65536 \<le> length (TextEncoder_encode s)"
  shows "TextDecoder_decode
     (take (length (TextEncoder_encode s) mod 65536) (TextEncoder_encode s)) \<noteq> s"
proof
  let ?B = "TextEncoder_encode s"
  let ?m = "length ?B mod 65536"
  let ?S = "to_scalars (map unat s)"
  assume eq: "TextDecoder_decode (take ?m ?B) = s"
  have sc: "\<forall>c\<in>set ?S. is_scalar c"
    by (rule to_scalars_is_scalar, rule unat_units_bound)
  have len: "length (utf8_encode ?S) = length ?B"
    using encode_scalars [of s, THEN arg_cong, of length] by simp
  define D where "D = utf8_decode 0 0 0 0x80 0xBF (take ?m (utf8_encode ?S))"
  have D1: "length D \<le> length ?S" and D2: "\<forall>x\<in>set D. is_scalar x"
    and D3: "?m < length ?B \<longrightarrow> D = ?S \<longrightarrow> length ?B \<le> ?m + 2"
    using truncated_decode [OF sc, of ?m] by (simp_all add: D_def len)
  have dec: "TextDecoder_decode (take ?m ?B) = map of_nat (from_scalars (strip_bom D))"
    by (simp add: TextDecoder_decode_def take_map [symmetric] encode_scalars D_def)
  have X: "\<forall>x\<in>set (strip_bom D). is_scalar x"
    using D2 set_strip_bom [of D] by blast
  have "map unat s = map unat (map of_nat (from_scalars (strip_bom D)) :: jsstring)"
    using eq dec by simp
  then have "map unat s = from_scalars (strip_bom D)"
    by (simp only: unat_of_nat_units [OF from_scalars_bound [OF X]])
  then have S: "?S = strip_bom D"
    by (simp add: to_scalars_from_scalars [OF X])
  with D1 strip_bom_cases [of D] have "D = ?S" by auto
  moreover have "?m < length ?B"
    using assms by (simp add: less_le_trans [OF mod_less_divisor])
  ultimately have "length ?B \<le> ?m + 2" using D3 by simp
  moreover have "65536 * (length ?B div 65536) + ?m = length ?B"
    by simp
  moreover have "1 \<le> length ?B div 65536"
    using assms by (simp add: div_greater_zero_iff Suc_le_eq)
  ultimately show False by linarith
qed

lemma TextEncoder_encode_replicate:
  assumes "unat u < 0x80"
  shows "TextEncoder_encode (replicate n u) = replicate n (ucast u)"
proof -
  have "to_scalars (replicate n (unat u)) = replicate n (unat u)"
    using assms by (intro to_scalars_plain) (simp add: is_surrogate_def)
  moreover have "utf8_encode (replicate n (unat u)) = replicate n (unat u)"
    using assms by (intro utf8_encode_ascii) simp
  ultimately show ?thesis
    by (simp add: TextEncoder_encode_def)
qed

lemma TextDecoder_decode_Nil: "TextDecoder_decode [] = []"
  by (simp add: TextDecoder_decode_def utf8_decode_Nil strip_bom_def from_scalars_def)

lemma encode_a: "TextEncoder_encode (replicate 65536 0x61) = replicate 65536 0x61"
  by (simp add: TextEncoder_encode_replicate)

lemma encode_b: "TextEncoder_encode (replicate 65537 0x62) = replicate 65537 0x62"
  by (simp add: TextEncoder_encode_replicate)

lemma encode_bom: "TextEncoder_encode [0xFEFF] = [0xEF, 0xBB, 0xBF]"
  by (simp add: TextEncoder_encode_def utf8_encode_def utf8_bytes_def is_surrogate_def)

lemma decode_bom: "TextDecoder_decode [0xEF, 0xBB, 0xBF] = []"
  by (simp add: TextDecoder_decode_def utf8_decode.simps strip_bom_def from_scalars_def)

lemma encode_lone: "TextEncoder_encode [0xD800] = [0xEF, 0xBF, 0xBD]"
  by (simp add: TextEncoder_encode_def utf8_encode_def utf8_bytes_def is_surrogate_def)

lemma decode_replacement: "TextDecoder_decode [0xEF, 0xBF, 0xBD] = [0xFFFD]"
  by (simp add: TextDecoder_decode_def utf8_decode.simps strip_bom_def from_scalars_def
      utf16_units_def)

lemma decode_b: "TextDecoder_decode [0x62] = [0x62]"
  by (simp add: TextDecoder_decode_def utf8_decode.simps strip_bom_def from_scalars_def
      utf16_units_def)

lemma encode_sample:
  "TextEncoder_encode [0x48, 0xE9, 0x4E2D, 0xD83D, 0xDE00] =
     [0x48, 0xC3, 0xA9, 0xE4, 0xB8, 0xAD, 0xF0, 0x9F, 0x98, 0x80]"
  by (simp add: TextEncoder_encode_def utf8_encode_def utf8_bytes_def is_surrogate_def
      is_lead_def is_trail_def)

section \<open>Lemmas: strings on the wire\<close>

lemma slice_inside:
  "0 \<le> a \<Longrightarrow> a \<le> b \<Longrightarrow> b \<le> int (length d) \<Longrightarrow>
   slice d a b = take (nat (b - a)) (drop (nat a) d)"
  by (auto simp add: slice_def Let_def min_def max_def)

text \<open>
  Within the engine's limit the two writes return normally and append what they were
  given. Beyond it they throw and append nothing, \<open>writeString\<close> after it has
  written its length prefix.
\<close>

lemma writeString_within:
  "length (TextEncoder_encode s) \<le> limit \<Longrightarrow>
   writeString limit s w =
     (Inr (),
      w\<lparr>buffer := buffer w @
         [take_bit 8 (int (length (TextEncoder_encode s))),
          take_bit 8 (drop_bit 8 (int (length (TextEncoder_encode s))))] @
         map uint (TextEncoder_encode s)\<rparr>)"
  by (simp add: writeString_def push_spread_def Let_def writeUInt16_def js_and_255
      take_bit_js_sar)

lemma writeString_beyond:
  "limit < length (TextEncoder_encode s) \<Longrightarrow>
   writeString limit s w =
     (Inl RangeError, writeUInt16 (int (length (TextEncoder_encode s))) w)"
  by (simp add: writeString_def push_spread_def Let_def)

lemma writeBytes_within:
  "length bytes \<le> limit \<Longrightarrow>
   writeBytes limit bytes w = (Inr (), w\<lparr>buffer := buffer w @ map uint bytes\<rparr>)"
  by (simp add: writeBytes_def push_spread_def)

lemma writeBytes_beyond:
  "limit < length bytes \<Longrightarrow> writeBytes limit bytes w = (Inl RangeError, w)"
  by (simp add: writeBytes_def push_spread_def)

lemma buffer_writeString:
  "length (TextEncoder_encode s) \<le> limit \<Longrightarrow>
   buffer (snd (writeString limit s w)) =
     buffer w @ [take_bit 8 (int (length (TextEncoder_encode s))),
                 take_bit 8 (drop_bit 8 (int (length (TextEncoder_encode s))))] @
     map uint (TextEncoder_encode s)"
  by (simp add: writeString_within)

lemma readString_writeString:
  assumes "length (TextEncoder_encode s) \<le> limit"
  shows "readString (reader_after w (snd (writeString limit s w))) =
     (Inr (TextDecoder_decode
        (take (length (TextEncoder_encode s) mod 65536) (TextEncoder_encode s))),
      \<lparr>data = fst (getData (snd (writeString limit s w))),
       offset = int (length (buffer w)) + 2 + int (length (TextEncoder_encode s) mod 65536)\<rparr>)"
proof -
  let ?bytes = "TextEncoder_encode s"
  let ?L = "int (length ?bytes)"
  let ?n = "int (length (buffer w))"
  let ?d = "fst (getData (snd (writeString limit s w)))"
  have d: "?d = Uint8Array_from (buffer w) @
      [word_of_int (take_bit 8 ?L), word_of_int (take_bit 8 (drop_bit 8 ?L))] @ ?bytes"
    by (simp add: getData_def buffer_writeString [OF assms] Uint8Array_from_def comp_def)
  have len: "int (length ?d) = ?n + 2 + ?L"
    unfolding d by (simp add: length_Uint8Array_from)
  have m: "take_bit 16 ?L = int (length ?bytes mod 65536)"
    by (simp add: take_bit_eq_mod zmod_int)
  have u16: "readUInt16 \<lparr>data = ?d, offset = ?n\<rparr> =
      (Inr (int (length ?bytes mod 65536)), \<lparr>data = ?d, offset = ?n + 2\<rparr>)"
    using len unfolding d
    by (simp add: readUInt16_def at_simps length_Uint8Array_from elem_bits_def
        uint_word_of_int_eq js_u16 m)
  have le: "int (length ?bytes mod 65536) \<le> ?L"
    by (simp add: mod_less_eq_dividend)
  have sl: "slice ?d (?n + 2) (?n + 2 + int (length ?bytes mod 65536)) =
      take (length ?bytes mod 65536) ?bytes"
    using le len
    by (subst slice_inside) (simp_all add: d nat_add_distrib length_Uint8Array_from)
  show ?thesis
    using le len
    by (simp add: readString_def reader_after_def u16 sl Let_def)
qed

lemma rt_string:
  assumes "well_formed s" "\<not> starts_with_bom s" "length (TextEncoder_encode s) \<le> 65535"
    and "length (TextEncoder_encode s) \<le> limit"
  shows "readString (reader_after w (snd (writeString limit s w))) =
     (Inr s, reader_after (snd (writeString limit s w)) (snd (writeString limit s w)))"
proof -
  have "length (TextEncoder_encode s) mod 65536 = length (TextEncoder_encode s)"
    using assms(3) by simp
  then show ?thesis
    unfolding readString_writeString [OF assms(4)]
    by (simp add: TextDecoder_decode_encode [OF assms(1,2)] reader_after_def
        buffer_writeString [OF assms(4)])
qed

lemma prefix_bytes:
  "take_bit 8 (int n) = int (n mod 65536) mod 256"
  "take_bit 8 (drop_bit 8 (int n)) = int (n mod 65536) div 256"
proof -
  have m: "int (n mod 65536) = take_bit 16 (int n)"
    by (simp add: take_bit_eq_mod zmod_int)
  show "take_bit 8 (int n) = int (n mod 65536) mod 256"
    unfolding m by (simp flip: take_bit_eq_mod [of 8, simplified])
  have "take_bit 8 (drop_bit 8 (int n)) = drop_bit 8 (take_bit 16 (int n))"
    by (rule bit_eqI) (auto simp add: bit_simps)
  then show "take_bit 8 (drop_bit 8 (int n)) = int (n mod 65536) div 256"
    unfolding m by (simp add: drop_bit_eq_div)
qed

section \<open>Lemmas: the cursor\<close>

text \<open>The length prefix that \<open>readString\<close> reads is never negative.\<close>

lemma js_le16:
  assumes "0 \<le> a" "a < 256" "0 \<le> b" "b < 256"
  shows "js_or a (js_shl b 8) = a + 256 * b"
proof -
  define v where "v = a + 256 * b"
  have "take_bit 8 v = a" "take_bit 8 (drop_bit 8 v) = b" "take_bit 16 v = v"
    using assms by (simp_all add: v_def take_bit_eq_mod drop_bit_eq_div)
  with js_u16 [of v] show ?thesis by (simp add: v_def)
qed

lemma elem_bits_at: "0 \<le> elem_bits (at d i) \<and> elem_bits (at d i) < 256"
  using uint_lt2p [of "d ! nat i"] by (simp add: elem_bits_def at_def)

lemma readUInt16_range:
  assumes "fst (readUInt16 r) = Inr v"
  shows "0 \<le> v \<and> v \<le> 65535"
proof -
  let ?a = "elem_bits (at (data r) (offset r))"
  let ?b = "elem_bits (at (data r) (offset r + 1))"
  have "v = js_or ?a (js_shl ?b 8)"
    using assms by (simp add: readUInt16_def Let_def split: if_splits)
  also have "\<dots> = ?a + 256 * ?b"
    using elem_bits_at [of "data r" "offset r"] elem_bits_at [of "data r" "offset r + 1"]
    by (intro js_le16) simp_all
  finally show ?thesis
    using elem_bits_at [of "data r" "offset r"] elem_bits_at [of "data r" "offset r + 1"]
    by linarith
qed

lemma readUInt16_in_bounds:
  "offset_in_bounds r \<Longrightarrow> offset_in_bounds (snd (readUInt16 r))"
  by (simp add: offset_in_bounds_def readUInt16_def Let_def)

lemma readString_in_bounds:
  assumes "offset_in_bounds r"
  shows "offset_in_bounds (snd (readString r))"
proof (cases "readUInt16 r")
  case (Pair res r1)
  then have r1: "offset_in_bounds r1"
    using readUInt16_in_bounds [OF assms] by simp
  show ?thesis
  proof (cases res)
    case (Inl e)
    with Pair r1 show ?thesis by (simp add: readString_def)
  next
    case (Inr len)
    with Pair have "0 \<le> len" using readUInt16_range [of r len] by simp
    with Pair Inr r1 show ?thesis
      by (simp add: readString_def Let_def offset_in_bounds_def)
  qed
qed

text \<open>
  With no negative length given to \<open>readBytes\<close>, every sequence of calls keeps the cursor
  inside \<open>[0, data.length]\<close>; the bytes are never changed.
\<close>

lemma step_data: "data (step op r) = data r"
  by (cases op)
    (auto simp add: readUInt8_def readUInt16_def readUInt32_def readUInt64_def
      readInt32_def readInt64_def readFloat32_def readFloat64_def readBool_def
      readString_def readBytes_def setOffset_def reset_def Let_def
      split: if_splits sum.splits)

lemma step_in_bounds:
  assumes "offset_in_bounds r" "\<forall>n. op = ReadBytes n \<longrightarrow> 0 \<le> n"
  shows "offset_in_bounds (step op r)"
proof (cases op)
  case ReadString
  with assms show ?thesis by (simp add: readString_in_bounds)
next
  case (ReadBytes n)
  with assms show ?thesis
    by (auto simp add: offset_in_bounds_def readBytes_def Let_def)
qed (use assms in \<open>auto simp add: offset_in_bounds_def readUInt8_def readUInt16_def
      readUInt32_def readUInt64_def
      readInt32_def readInt64_def readFloat32_def readFloat64_def readBool_def
      setOffset_def reset_def Let_def
      split: if_splits sum.splits\<close>)

lemma run_in_bounds:
  "offset_in_bounds r \<Longrightarrow> \<forall>n. ReadBytes n \<in> set ops \<longrightarrow> 0 \<le> n \<Longrightarrow>
   offset_in_bounds (fold step ops r)"
proof (induction ops arbitrary: r)
  case Nil
  then show ?case by simp
next
  case (Cons op ops)
  then have "offset_in_bounds (step op r)"
    by (intro step_in_bounds) auto
  with Cons show ?case by simp
qed

text \<open>
  Every read but \<open>readString\<close>, and \<open>setOffset\<close>, leave the reader as it was when they
  throw. \<open>readString\<close> does so only when its length prefix is missing; when the body is
  short it leaves the cursor behind the prefix.
\<close>

lemma failed_fixed_read_keeps_reader:
  "fst (readUInt8 r) = Inl e \<Longrightarrow> snd (readUInt8 r) = r"
  "fst (readUInt16 r) = Inl e \<Longrightarrow> snd (readUInt16 r) = r"
  "fst (readUInt32 r) = Inl e \<Longrightarrow> snd (readUInt32 r) = r"
  "fst (readUInt64 r) = Inl e \<Longrightarrow> snd (readUInt64 r) = r"
  "fst (readInt32 r) = Inl e \<Longrightarrow> snd (readInt32 r) = r"
  "fst (readInt64 r) = Inl e \<Longrightarrow> snd (readInt64 r) = r"
  "fst (readFloat32 r) = Inl e \<Longrightarrow> snd (readFloat32 r) = r"
  "fst (readFloat64 r) = Inl e \<Longrightarrow> snd (readFloat64 r) = r"
  "fst (readBool r) = Inl e \<Longrightarrow> snd (readBool r) = r"
  "fst (readBytes n r) = Inl e \<Longrightarrow> snd (readBytes n r) = r"
  "fst (setOffset v r) = Inl e \<Longrightarrow> snd (setOffset v r) = r"
  by (auto simp add: readUInt8_def readUInt16_def readUInt32_def readUInt64_def
      readInt32_def readInt64_def readFloat32_def readFloat64_def readBool_def
      readBytes_def setOffset_def Let_def split: if_splits sum.splits)

lemma failed_readString_reader:
  "fst (readString r) = Inl e \<Longrightarrow>
   snd (readString r) =
     (if offset r + 2 > int (length (data r)) then r else r\<lparr>offset := offset r + 2\<rparr>)"
  by (auto simp add: readString_def readUInt16_def Let_def split: if_splits)

section \<open>Lemmas: the messages of the out-of-data errors\<close>

lemma readUInt8_message:
  "fst (readUInt8 r) = Inl (Error m) \<Longrightarrow> m = ''PacketReader: Not enough data to read UInt8''"
  by (auto simp add: readUInt8_def Let_def split: if_splits sum.splits)

lemma readUInt16_message:
  "fst (readUInt16 r) = Inl (Error m) \<Longrightarrow> m = ''PacketReader: Not enough data to read UInt16''"
  by (auto simp add: readUInt16_def Let_def split: if_splits sum.splits)

lemma readUInt32_message:
  "fst (readUInt32 r) = Inl (Error m) \<Longrightarrow> m = ''PacketReader: Not enough data to read UInt32''"
  by (auto simp add: readUInt32_def Let_def split: if_splits sum.splits)

lemma readInt32_message:
  "fst (readInt32 r) = Inl (Error m) \<Longrightarrow> m = ''PacketReader: Not enough data to read Int32''"
  by (auto simp add: readInt32_def DataView_new_def Let_def split: if_splits sum.splits)

lemma readInt64_message:
  "fst (readInt64 r) = Inl (Error m) \<Longrightarrow> m = ''PacketReader: Not enough data to read Int64''"
  by (auto simp add: readInt64_def DataView_new_def Let_def split: if_splits sum.splits)

lemma readFloat32_message:
  "fst (readFloat32 r) = Inl (Error m) \<Longrightarrow> m = ''PacketReader: Not enough data to read Float32''"
  by (auto simp add: readFloat32_def DataView_new_def Let_def split: if_splits sum.splits)

lemma readFloat64_message:
  "fst (readFloat64 r) = Inl (Error m) \<Longrightarrow> m = ''PacketReader: Not enough data to read Float64''"
  by (auto simp add: readFloat64_def DataView_new_def Let_def split: if_splits sum.splits)

lemma readUInt64_loop_no_Error: "readUInt64_loop d off i v \<noteq> Inl (Error m)"
  by (induction d off i v rule: readUInt64_loop.induct)
    (subst readUInt64_loop.simps, auto split: option.splits)

lemma readUInt64_message:
  "fst (readUInt64 r) = Inl (Error m) \<Longrightarrow> m = ''PacketReader: Not enough data to read UInt64''"
  using readUInt64_loop_no_Error [of "data r" "offset r" 0 0 m]
  by (auto simp add: readUInt64_def split: if_splits sum.splits)

lemma readBytes_message:
  "fst (readBytes n r) = Inl (Error m) \<Longrightarrow> m = ''PacketReader: Not enough data to read bytes''"
  by (auto simp add: readBytes_def Let_def split: if_splits)

lemma readBool_message:
  "fst (readBool r) = Inl (Error m) \<Longrightarrow> m = ''PacketReader: Not enough data to read UInt8''"
  by (auto simp add: readBool_def readUInt8_def split: if_splits)

lemma readString_message:
  "fst (readString r) = Inl (Error m) \<Longrightarrow>
   m = (if offset r + 2 > int (length (data r))
        then ''PacketReader: Not enough data to read UInt16''
        else ''PacketReader: Not enough data to read string'')"
  by (auto simp add: readString_def readUInt16_def Let_def split: if_splits)

section \<open>Lemmas: the reader behind the packet identifier\<close>

text \<open>
  Reading the packet identifier from the unframed bytes of any writer built on
  \<open>PacketWriter_new pid\<close> gives the identifier modulo 65536 and leaves the reader that
  \<open>reader_after\<close> describes.
\<close>

lemma reader_after_constructor:
  "readUInt16 (PacketReader_new (fst (getData (fold (apply_write limit) ops (PacketWriter_new pid))))) =
     (Inr (pid mod 65536),
      reader_after (PacketWriter_new pid) (fold (apply_write limit) ops (PacketWriter_new pid)))"
proof -
  obtain ys where
    "buffer (fold (apply_write limit) ops (PacketWriter_new pid)) = buffer (PacketWriter_new pid) @ ys"
    using fold_apply_write by blast
  then show ?thesis
    by (simp add: getData_def buffer_new Uint8Array_from_def readUInt16_prefix reader_after_def)
qed

section \<open>The framing of a packet\<close>

text \<open>
  C4, as amended. The framed output is always exactly 2 bytes longer than the unframed
  output and continues with it unchanged. Its first 2 bytes, read as a little-endian
  unsigned 16-bit integer, give the length of the unframed output modulo 65536, hence
  exactly that length whenever the unframed output has at most 65535 bytes.
\<close>

theorem frame_invariant:
  "length (fst (getBytes w)) = 2 + length (fst (getData w)) \<and>
   drop 2 (fst (getBytes w)) = fst (getData w) \<and>
   fst (readUInt16 (PacketReader_new (fst (getBytes w)))) =
     Inr (int (length (fst (getData w))) mod 65536) \<and>
   (length (fst (getData w)) \<le> 65535 \<longrightarrow>
      fst (readUInt16 (PacketReader_new (fst (getBytes w)))) =
        Inr (int (length (fst (getData w)))))"
  by (simp add: framed_header) (simp add: getBytes_eq getData_def length_Uint8Array_from)

text \<open>The framing property at the writer that holds only the packet identifier 10001.\<close>

theorem frame_invariant_witness:
  "length (fst (getData (PacketWriter_new 10001))) \<le> 65535 \<and>
   fst (readUInt16 (PacketReader_new (fst (getBytes (PacketWriter_new 10001))))) = Inr 2"
proof -
  have l: "length (fst (getData (PacketWriter_new 10001))) = 2"
    by (simp add: getData_def length_Uint8Array_from buffer_new)
  then show ?thesis
    using frame_invariant [of "PacketWriter_new 10001"] by simp
qed

text \<open>
  C4 as stated fails once the buffer holds 65536 bytes: after the packet identifier 0 and
  65534 raw bytes, written on an engine that accepts 100000 arguments in a call, the
  header reads 0, not 65536.
\<close>

theorem frame_header_wraps:
  "fst (writeBytes 100000 (replicate 65534 0) (PacketWriter_new 0)) = Inr () \<and>
   length (fst (getData (snd (writeBytes 100000 (replicate 65534 0) (PacketWriter_new 0))))) =
     65536 \<and>
   fst (readUInt16 (PacketReader_new
      (fst (getBytes (snd (writeBytes 100000 (replicate 65534 0) (PacketWriter_new 0))))))) =
     Inr 0"
proof -
  have w: "writeBytes 100000 (replicate 65534 0) (PacketWriter_new 0) =
      (Inr (), (PacketWriter_new 0)
         \<lparr>buffer := buffer (PacketWriter_new 0) @ map uint (replicate 65534 (0 :: byte))\<rparr>)"
    by (rule writeBytes_within) simp
  have l: "length (fst (getData (snd (writeBytes 100000 (replicate 65534 0)
      (PacketWriter_new 0))))) = 65536"
    unfolding w by (simp add: getData_def length_Uint8Array_from buffer_new)
  show ?thesis
    unfolding framed_header l by (simp add: l) (simp add: w)
qed

section \<open>The concrete scenario\<close>

text \<open>
  C5. On an engine that accepts the five bytes of "Hello" as arguments of a call, a writer
  for packet 10001 that writes the string "Hello", the unsigned 32-bit integer 12345 and
  the boolean true holds the unframed bytes
  11 27 05 00 48 65 6C 6C 6F 39 30 00 00 01; the framed bytes put 0E 00 in front; and
  reading a packet identifier, a string, an unsigned 32-bit integer and a boolean from the
  unframed bytes gives 10001, "Hello", 12345 and true and leaves the reader complete.
\<close>

theorem concrete_scenario:
  "5 \<le> limit \<Longrightarrow>
   (let (written, w1) = writeString limit (ascii ''Hello'') (PacketWriter_new 10001);
        w = writeBool True (writeUInt32 12345 w1);
        d = fst (getData w);
        r0 = PacketReader_new d;
        (a, r1) = readUInt16 r0;
        (b, r2) = readString r1;
        (c, r3) = readUInt32 r2;
        (e, r4) = readBool r3
    in written = Inr () \<and>
       d = [0x11, 0x27, 0x05, 0x00, 0x48, 0x65, 0x6C, 0x6C, 0x6F, 0x39, 0x30, 0x00, 0x00, 0x01] \<and>
       fst (getBytes w) = [0x0E, 0x00] @ d \<and>
       a = Inr 10001 \<and> b = Inr (ascii ''Hello'') \<and> c = Inr 12345 \<and> e = Inr True \<and>
       isComplete r4)"
  by (simp add: ascii_Hello case_prod_beta getData_def getBytes_def Uint8Array_set_def
      Uint8Array_from_def hello_written hello_buffer hello_read_id hello_read_string
      hello_read_uint32 hello_read_bool isComplete_def js_byte0 js_byte1)

text \<open>The scenario on an engine that accepts 100000 arguments in a call.\<close>

theorem concrete_scenario_witness:
  "(5 :: nat) \<le> 100000 \<and>
   (let (written, w1) = writeString 100000 (ascii ''Hello'') (PacketWriter_new 10001);
        w = writeBool True (writeUInt32 12345 w1);
        d = fst (getData w);
        r0 = PacketReader_new d;
        (a, r1) = readUInt16 r0;
        (b, r2) = readString r1;
        (c, r3) = readUInt32 r2;
        (e, r4) = readBool r3
    in written = Inr () \<and>
       d = [0x11, 0x27, 0x05, 0x00, 0x48, 0x65, 0x6C, 0x6C, 0x6F, 0x39, 0x30, 0x00, 0x00, 0x01] \<and>
       fst (getBytes w) = [0x0E, 0x00] @ d \<and>
       a = Inr 10001 \<and> b = Inr (ascii ''Hello'') \<and> c = Inr 12345 \<and> e = Inr True \<and>
       isComplete r4)"
proof -
  have h: "(5 :: nat) \<le> 100000" by simp
  from concrete_scenario [OF h] h show ?thesis by blast
qed

section \<open>The packet identifier\<close>

text \<open>
  C6. For every packet identifier, the buffer of a new writer consists of exactly its two
  low bytes, least significant first (so a reader gets the identifier modulo 65536 back);
  whatever is written afterwards, on an engine with any limit, these stay the first two
  bytes of the buffer, and \<open>getPacketId\<close> returns the identifier given to the constructor.
\<close>

theorem constructor_writes_packetId:
  "buffer (PacketWriter_new pid) = [pid mod 256, pid div 256 mod 256] \<and>
   fst (readUInt16 (PacketReader_new (fst (getData (PacketWriter_new pid))))) =
     Inr (pid mod 65536) \<and>
   take 2 (buffer (fold (apply_write limit) ops (PacketWriter_new pid))) =
     [pid mod 256, pid div 256 mod 256] \<and>
   fst (getPacketId (fold (apply_write limit) ops (PacketWriter_new pid))) = pid"
proof -
  have b: "buffer (PacketWriter_new pid) = [pid mod 256, pid div 256 mod 256]"
    by (simp add: buffer_new take_bit_eq_mod drop_bit_eq_div)
  have r: "fst (readUInt16 (PacketReader_new (fst (getData (PacketWriter_new pid))))) =
     Inr (pid mod 65536)"
    by (simp add: getData_def buffer_new Uint8Array_from_def readUInt16_prefix)
  obtain ys where
    "buffer (fold (apply_write limit) ops (PacketWriter_new pid)) = buffer (PacketWriter_new pid) @ ys"
    using fold_apply_write by blast
  then have t: "take 2 (buffer (fold (apply_write limit) ops (PacketWriter_new pid))) =
     [pid mod 256, pid div 256 mod 256]"
    by (simp add: b)
  have "packetId (PacketWriter_new pid) = pid"
    by (simp add: PacketWriter_new_def writeUInt16_def)
  then have "fst (getPacketId (fold (apply_write limit) ops (PacketWriter_new pid))) = pid"
    by (simp add: getPacketId_def fold_apply_write)
  with b r t show ?thesis by simp
qed

section \<open>Extraction leaves the writer alone\<close>

text \<open>
  C8. After any sequence of calls of \<open>getBytes\<close>, \<open>getData\<close> and \<open>getPacketId\<close> the writer
  (buffer and packet identifier) is what it was, and each of the three returns what it
  returned before.
\<close>

theorem extraction_pure:
  "fold call_getter qs w = w \<and>
   getBytes (fold call_getter qs w) = getBytes w \<and>
   getData (fold call_getter qs w) = getData w \<and>
   getPacketId (fold call_getter qs w) = getPacketId w"
proof -
  have "fold call_getter qs w = w"
    by (induction qs) (simp_all add: call_getter_id)
  then show ?thesis by simp
qed

section \<open>Moving the cursor\<close>

text \<open>
  C7. For every reader and every integer \<open>v\<close>: outside \<open>[0, data.length]\<close>, \<open>setOffset v\<close>
  throws the invalid-offset error and leaves the reader as it was; inside, it returns
  normally with the cursor at \<open>v\<close>.
\<close>

theorem setOffset_validates:
  "(v < 0 \<or> int (length (data r)) < v \<longrightarrow>
      setOffset v r = (Inl (Error ''PacketReader: Invalid offset''), r)) \<and>
   (0 \<le> v \<and> v \<le> int (length (data r)) \<longrightarrow>
      setOffset v r = (Inr (), r\<lparr>offset := v\<rparr>))"
  by (auto simp add: setOffset_def)

text \<open>\<open>setOffset\<close> on a reader of three bytes: above the range, below it, and at its end.\<close>

theorem setOffset_validates_witness:
  "setOffset 7 (PacketReader_new [1, 2, 3]) =
     (Inl (Error ''PacketReader: Invalid offset''), PacketReader_new [1, 2, 3]) \<and>
   setOffset (- 1) (PacketReader_new [1, 2, 3]) =
     (Inl (Error ''PacketReader: Invalid offset''), PacketReader_new [1, 2, 3]) \<and>
   setOffset 3 (PacketReader_new [1, 2, 3]) = (Inr (), \<lparr>data = [1, 2, 3], offset = 3\<rparr>)"
  using setOffset_validates [of 7 "PacketReader_new [1, 2, 3]"]
    setOffset_validates [of "- 1" "PacketReader_new [1, 2, 3]"]
    setOffset_validates [of 3 "PacketReader_new [1, 2, 3]"]
  by (simp add: PacketReader_new_def)

section \<open>Failed reads\<close>

text \<open>
  C2 fails for \<open>readString\<close>. On the two bytes 05 00 the length prefix 5 is read, the
  check of the body then fails, and the string error is thrown with the cursor at 2, not
  at 0. On the bytes 04 00 01 00 41 the first \<open>readString\<close> fails in the same way, and the
  same call issued again succeeds, reading the prefix 1 from the body.
\<close>

theorem readString_failure_advances_offset:
  "readString (PacketReader_new [5, 0]) =
     (Inl (Error ''PacketReader: Not enough data to read string''),
      \<lparr>data = [5, 0], offset = 2\<rparr>) \<and>
   readString (PacketReader_new [4, 0, 1, 0, 0x41]) =
     (Inl (Error ''PacketReader: Not enough data to read string''),
      \<lparr>data = [4, 0, 1, 0, 0x41], offset = 2\<rparr>) \<and>
   readString \<lparr>data = [4, 0, 1, 0, 0x41], offset = 2\<rparr> =
     (Inr [0x41], \<lparr>data = [4, 0, 1, 0, 0x41], offset = 5\<rparr>)"
proof -
  have "TextDecoder_decode [0x41] = [0x41]"
    by (simp add: TextDecoder_decode_def utf8_decode.simps strip_bom_def from_scalars_def
        utf16_units_def)
  then show ?thesis
    by (simp add: readString_def readUInt16_def PacketReader_new_def at_def elem_bits_def
        js_or_def js_shl_def ToInt32_def slice_def)
qed

text \<open>
  C3 fails for a negative length. On an empty reader, whose cursor is in bounds,
  \<open>readBytes(-1)\<close> passes the bounds check, returns an empty array and leaves the cursor
  at -1.
\<close>

theorem readBytes_negative_length:
  "offset_in_bounds (PacketReader_new []) \<and>
   readBytes (- 1) (PacketReader_new []) = (Inr [], \<lparr>data = [], offset = - 1\<rparr>) \<and>
   \<not> offset_in_bounds (fold step [ReadBytes (- 1)] (PacketReader_new []))"
  by (simp add: readBytes_def PacketReader_new_def slice_def offset_in_bounds_def)

text \<open>
  C9 as stated fails: on an empty reader the error of a boolean read names UInt8 and the
  error of a string read names UInt16.
\<close>

theorem failing_bool_and_string_name_other_types:
  "fst (readBool (PacketReader_new [])) =
     Inl (Error ''PacketReader: Not enough data to read UInt8'') \<and>
   fst (readString (PacketReader_new [])) =
     Inl (Error ''PacketReader: Not enough data to read UInt16'')"
  by (simp add: readBool_def readUInt8_def readString_def readUInt16_def PacketReader_new_def)

text \<open>
  C9, as amended. A read that fails for lack of data throws an error whose message names
  the read whose bounds check failed. Every fixed-width read and \<open>readBytes\<close> check for
  themselves and name their own type. \<open>readBool\<close> has no check of its own and reports
  UInt8; \<open>readString\<close> reports UInt16 when the two bytes of the length prefix are missing and
  names the string only when the body is short.
\<close>

theorem out_of_data_names_failed_check:
  "(fst (readUInt8 r) = Inl (Error m) \<longrightarrow> m = ''PacketReader: Not enough data to read UInt8'') \<and>
   (fst (readUInt16 r) = Inl (Error m) \<longrightarrow> m = ''PacketReader: Not enough data to read UInt16'') \<and>
   (fst (readUInt32 r) = Inl (Error m) \<longrightarrow> m = ''PacketReader: Not enough data to read UInt32'') \<and>
   (fst (readUInt64 r) = Inl (Error m) \<longrightarrow> m = ''PacketReader: Not enough data to read UInt64'') \<and>
   (fst (readInt32 r) = Inl (Error m) \<longrightarrow> m = ''PacketReader: Not enough data to read Int32'') \<and>
   (fst (readInt64 r) = Inl (Error m) \<longrightarrow> m = ''PacketReader: Not enough data to read Int64'') \<and>
   (fst (readFloat32 r) = Inl (Error m) \<longrightarrow> m = ''PacketReader: Not enough data to read Float32'') \<and>
   (fst (readFloat64 r) = Inl (Error m) \<longrightarrow> m = ''PacketReader: Not enough data to read Float64'') \<and>
   (fst (readBytes n r) = Inl (Error m) \<longrightarrow> m = ''PacketReader: Not enough data to read bytes'') \<and>
   (fst (readBool r) = Inl (Error m) \<longrightarrow> m = ''PacketReader: Not enough data to read UInt8'') \<and>
   (fst (readString r) = Inl (Error m) \<longrightarrow>
      m = (if offset r + 2 > int (length (data r))
           then ''PacketReader: Not enough data to read UInt16''
           else ''PacketReader: Not enough data to read string''))"
  using readUInt8_message [of r m] readUInt16_message [of r m] readUInt32_message [of r m]
    readUInt64_message [of r m] readInt32_message [of r m] readInt64_message [of r m]
    readFloat32_message [of r m] readFloat64_message [of r m] readBytes_message [of n r m]
    readBool_message [of r m] readString_message [of r m]
  by blast

text \<open>A boolean read on no bytes, a string read on a prefix without body, a short UInt32.\<close>

theorem out_of_data_names_failed_check_witness:
  "fst (readBool (PacketReader_new [])) =
     Inl (Error ''PacketReader: Not enough data to read UInt8'') \<and>
   fst (readString (PacketReader_new [5, 0])) =
     Inl (Error ''PacketReader: Not enough data to read string'') \<and>
   fst (readUInt32 (PacketReader_new [1, 2, 3])) =
     Inl (Error ''PacketReader: Not enough data to read UInt32'')"
proof -
  obtain m1 where m1: "fst (readBool (PacketReader_new [])) = Inl (Error m1)"
    by (simp add: readBool_def readUInt8_def PacketReader_new_def)
  obtain m2 where m2: "fst (readString (PacketReader_new [5, 0])) = Inl (Error m2)"
    by (simp add: readString_def readUInt16_def PacketReader_new_def at_def elem_bits_def js_or_def js_shl_def ToInt32_def)
  obtain m3 where m3: "fst (readUInt32 (PacketReader_new [1, 2, 3])) = Inl (Error m3)"
    by (simp add: readUInt32_def PacketReader_new_def)
  from out_of_data_names_failed_check [of "PacketReader_new []" m1] m1
  have "m1 = ''PacketReader: Not enough data to read UInt8''" by blast
  moreover from out_of_data_names_failed_check [of "PacketReader_new [5, 0]" m2] m2
  have "m2 = ''PacketReader: Not enough data to read string''"
    by (simp add: PacketReader_new_def)
  moreover from out_of_data_names_failed_check [of "PacketReader_new [1, 2, 3]" m3] m3
  have "m3 = ''PacketReader: Not enough data to read UInt32''" by blast
  ultimately show ?thesis using m1 m2 m3 by simp
qed

section \<open>Reading back what was written\<close>

text \<open>
  C1, as amended. Let a writer hold anything, write one value, and let a reader over the
  unframed bytes stand where that value begins. Then the matching read returns the value
  and leaves the cursor at the end of the bytes:
  unsigned integers of 8, 16, 32 and 64 bits in their range, signed integers of 32 and 64
  bits in their range, every 32-bit and 64-bit float (as an IEEE-754 bit pattern), both
  booleans, and every string that is well-formed UTF-16, does not begin with U+FEFF and has
  at most 65535 bytes of UTF-8, written on an engine that accepts that many bytes as the
  arguments of one call (the write then returns normally).
\<close>

theorem round_trip:
  "(0 \<le> u8 \<and> u8 \<le> 255 \<longrightarrow>
      readUInt8 (reader_after w (writeUInt8 u8 w)) =
        (Inr (Some u8), reader_after (writeUInt8 u8 w) (writeUInt8 u8 w))) \<and>
   (0 \<le> u16 \<and> u16 \<le> 65535 \<longrightarrow>
      readUInt16 (reader_after w (writeUInt16 u16 w)) =
        (Inr u16, reader_after (writeUInt16 u16 w) (writeUInt16 u16 w))) \<and>
   (0 \<le> u32 \<and> u32 \<le> 4294967295 \<longrightarrow>
      readUInt32 (reader_after w (writeUInt32 u32 w)) =
        (Inr u32, reader_after (writeUInt32 u32 w) (writeUInt32 u32 w))) \<and>
   (0 \<le> u64 \<and> u64 < 2 ^ 64 \<longrightarrow>
      readUInt64 (reader_after w (writeUInt64 u64 w)) =
        (Inr u64, reader_after (writeUInt64 u64 w) (writeUInt64 u64 w))) \<and>
   (- (2 ^ 31) \<le> i32 \<and> i32 < 2 ^ 31 \<longrightarrow>
      readInt32 (reader_after w (writeInt32 i32 w)) =
        (Inr i32, reader_after (writeInt32 i32 w) (writeInt32 i32 w))) \<and>
   (- (2 ^ 63) \<le> i64 \<and> i64 < 2 ^ 63 \<longrightarrow>
      readInt64 (reader_after w (writeInt64 i64 w)) =
        (Inr i64, reader_after (writeInt64 i64 w) (writeInt64 i64 w))) \<and>
   readFloat32 (reader_after w (writeFloat32 f32 w)) =
     (Inr f32, reader_after (writeFloat32 f32 w) (writeFloat32 f32 w)) \<and>
   readFloat64 (reader_after w (writeFloat64 f64 w)) =
     (Inr f64, reader_after (writeFloat64 f64 w) (writeFloat64 f64 w)) \<and>
   readBool (reader_after w (writeBool b w)) =
     (Inr b, reader_after (writeBool b w) (writeBool b w)) \<and>
   (well_formed s \<and> \<not> starts_with_bom s \<and> length (TextEncoder_encode s) \<le> 65535 \<and>
    length (TextEncoder_encode s) \<le> limit \<longrightarrow>
      fst (writeString limit s w) = Inr () \<and>
      readString (reader_after w (snd (writeString limit s w))) =
        (Inr s, reader_after (snd (writeString limit s w)) (snd (writeString limit s w))))"
  using rt_uint8 [of u8 w] rt_uint16 [of u16 w] rt_uint32 [of u32 w] rt_uint64 [of u64 w]
    rt_int32 [of i32 w] rt_int64 [of i64 w] rt_float32 [of w f32] rt_float64 [of w f64]
    rt_bool [of w b] rt_string [of s limit w] writeString_within [of s limit w]
  by simp

text \<open>
  The round trip at the ends of the integer ranges and for a string of an ASCII letter,
  a Latin-1 letter, a CJK character and an emoji (one surrogate pair), after the packet
  identifier 10001, on an engine that accepts 100000 arguments in a call.
\<close>

theorem round_trip_witness:
  "readUInt8 (reader_after (PacketWriter_new 10001) (writeUInt8 200 (PacketWriter_new 10001))) =
     (Inr (Some 200), \<lparr>data = [0x11, 0x27, 0xC8], offset = 3\<rparr>) \<and>
   fst (readUInt16 (reader_after (PacketWriter_new 10001)
     (writeUInt16 65535 (PacketWriter_new 10001)))) = Inr 65535 \<and>
   fst (readUInt32 (reader_after (PacketWriter_new 10001)
     (writeUInt32 4294967295 (PacketWriter_new 10001)))) = Inr 4294967295 \<and>
   fst (readUInt64 (reader_after (PacketWriter_new 10001)
     (writeUInt64 18446744073709551615 (PacketWriter_new 10001)))) = Inr 18446744073709551615 \<and>
   fst (readInt32 (reader_after (PacketWriter_new 10001)
     (writeInt32 (- 2147483648) (PacketWriter_new 10001)))) = Inr (- 2147483648) \<and>
   fst (readInt64 (reader_after (PacketWriter_new 10001)
     (writeInt64 (- 9223372036854775808) (PacketWriter_new 10001)))) =
     Inr (- 9223372036854775808) \<and>
   well_formed [0x48, 0xE9, 0x4E2D, 0xD83D, 0xDE00] \<and>
   \<not> starts_with_bom [0x48, 0xE9, 0x4E2D, 0xD83D, 0xDE00] \<and>
   length (TextEncoder_encode [0x48, 0xE9, 0x4E2D, 0xD83D, 0xDE00]) = 10 \<and>
   fst (writeString 100000 [0x48, 0xE9, 0x4E2D, 0xD83D, 0xDE00] (PacketWriter_new 10001)) =
     Inr () \<and>
   fst (readString (reader_after (PacketWriter_new 10001)
     (snd (writeString 100000 [0x48, 0xE9, 0x4E2D, 0xD83D, 0xDE00]
        (PacketWriter_new 10001))))) =
     Inr [0x48, 0xE9, 0x4E2D, 0xD83D, 0xDE00]"
proof -
  have wf: "well_formed [0x48, 0xE9, 0x4E2D, 0xD83D, 0xDE00]"
    by (simp add: well_formed_def is_surrogate_def is_lead_def is_trail_def)
  have bom: "\<not> starts_with_bom [0x48, 0xE9, 0x4E2D, 0xD83D, 0xDE00]"
    by (simp add: starts_with_bom_def)
  have len: "length (TextEncoder_encode [0x48, 0xE9, 0x4E2D, 0xD83D, 0xDE00]) = 10"
    by (simp add: encode_sample)
  have u8: "reader_after (writeUInt8 200 (PacketWriter_new 10001))
      (writeUInt8 200 (PacketWriter_new 10001)) = \<lparr>data = [0x11, 0x27, 0xC8], offset = 3\<rparr>"
    by (simp add: reader_after_def writeUInt8_def getData_def Uint8Array_from_def buffer_new
        js_byte0)
  show ?thesis
    using round_trip [of 200 "PacketWriter_new 10001" 65535 4294967295 18446744073709551615
        "- 2147483648" "- 9223372036854775808" _ _ _ "[0x48, 0xE9, 0x4E2D, 0xD83D, 0xDE00]"
        100000]
      wf bom len u8
    by simp
qed

text \<open>
  C1 as stated fails for three strings, each written without error on an engine that
  accepts 100000 arguments in a call. 65536 letters "a" are written with the length
  prefix 0 and read back as the empty string; the string U+FEFF loses its only character to
  the decoder's handling of a byte order mark; and an unpaired surrogate comes back as
  U+FFFD.
\<close>

theorem round_trip_counterexample:
  "fst (writeString 100000 (replicate 65536 0x61) (PacketWriter_new 10001)) = Inr () \<and>
   fst (readString (reader_after (PacketWriter_new 10001)
      (snd (writeString 100000 (replicate 65536 0x61) (PacketWriter_new 10001))))) = Inr [] \<and>
   fst (writeString 100000 [0xFEFF] (PacketWriter_new 10001)) = Inr () \<and>
   fst (readString (reader_after (PacketWriter_new 10001)
      (snd (writeString 100000 [0xFEFF] (PacketWriter_new 10001))))) = Inr [] \<and>
   fst (writeString 100000 [0xD800] (PacketWriter_new 10001)) = Inr () \<and>
   fst (readString (reader_after (PacketWriter_new 10001)
      (snd (writeString 100000 [0xD800] (PacketWriter_new 10001))))) = Inr [0xFFFD]"
proof -
  have a: "length (TextEncoder_encode (replicate 65536 0x61)) \<le> 100000"
    and b: "length (TextEncoder_encode [0xFEFF]) \<le> 100000"
    and c: "length (TextEncoder_encode [0xD800]) \<le> 100000"
    by (simp_all add: encode_a encode_bom encode_lone)
  have "fst (readString (reader_after (PacketWriter_new 10001)
      (snd (writeString 100000 (replicate 65536 0x61) (PacketWriter_new 10001))))) = Inr []"
    unfolding readString_writeString [OF a]
    by (simp add: encode_a TextDecoder_decode_Nil)
  moreover have "fst (readString (reader_after (PacketWriter_new 10001)
      (snd (writeString 100000 [0xFEFF] (PacketWriter_new 10001))))) = Inr []"
    unfolding readString_writeString [OF b]
    by (simp add: encode_bom decode_bom)
  moreover have "fst (readString (reader_after (PacketWriter_new 10001)
      (snd (writeString 100000 [0xD800] (PacketWriter_new 10001))))) = Inr [0xFFFD]"
    unfolding readString_writeString [OF c]
    by (simp add: encode_lone decode_replacement)
  moreover have "fst (writeString 100000 (replicate 65536 0x61) (PacketWriter_new 10001)) =
      Inr ()"
    unfolding writeString_within [OF a] by simp
  moreover have "fst (writeString 100000 [0xFEFF] (PacketWriter_new 10001)) = Inr ()"
    unfolding writeString_within [OF b] by simp
  moreover have "fst (writeString 100000 [0xD800] (PacketWriter_new 10001)) = Inr ()"
    unfolding writeString_within [OF c] by simp
  ultimately show ?thesis by blast
qed

section \<open>Strings of 65536 bytes and more\<close>

text \<open>
  C10, as amended. When the UTF-8 encoding of a string has 65536 bytes or more, and no
  more than the engine accepts as arguments of one call, \<open>writeString\<close> returns normally
  and has written as the prefix the length modulo 65536, low byte first, and after it all
  the bytes. The following \<open>readString\<close> does not fail: it decodes only as many bytes as
  the prefix says, stops there, and what it returns is not the string that was written.
\<close>

theorem long_string_prefix_wraps:
  "65536 \<le> length (TextEncoder_encode s) \<Longrightarrow> length (TextEncoder_encode s) \<le> limit \<Longrightarrow>
   (let bytes = TextEncoder_encode s; m = length bytes mod 65536
    in fst (writeString limit s w) = Inr () \<and>
       buffer (snd (writeString limit s w)) =
         buffer w @ [int m mod 256, int m div 256] @ map uint bytes \<and>
       readString (reader_after w (snd (writeString limit s w))) =
         (Inr (TextDecoder_decode (take m bytes)),
          \<lparr>data = fst (getData (snd (writeString limit s w))),
           offset = int (length (buffer w)) + 2 + int m\<rparr>) \<and>
       TextDecoder_decode (take m bytes) \<noteq> s)"
  unfolding Let_def
  by (intro conjI)
    (simp add: writeString_within, simp add: buffer_writeString prefix_bytes,
      rule readString_writeString, assumption, rule truncated_string_differs)

text \<open>
  65537 letters "b" after the packet identifier 10001, on an engine that accepts 100000
  arguments in a call: the prefix is 1 and "b" is read.
\<close>

theorem long_string_prefix_wraps_witness:
  "65536 \<le> length (TextEncoder_encode (replicate 65537 0x62)) \<and>
   length (TextEncoder_encode (replicate 65537 0x62)) \<le> 100000 \<and>
   fst (writeString 100000 (replicate 65537 0x62) (PacketWriter_new 10001)) = Inr () \<and>
   buffer (snd (writeString 100000 (replicate 65537 0x62) (PacketWriter_new 10001))) =
     [0x11, 0x27, 0x01, 0x00] @ replicate 65537 0x62 \<and>
   fst (readString (reader_after (PacketWriter_new 10001)
     (snd (writeString 100000 (replicate 65537 0x62) (PacketWriter_new 10001))))) =
     Inr [0x62]"
proof -
  have l: "65536 \<le> length (TextEncoder_encode (replicate 65537 0x62))"
    and u: "length (TextEncoder_encode (replicate 65537 0x62)) \<le> 100000"
    by (simp_all add: encode_b)
  from long_string_prefix_wraps [OF l u, of "PacketWriter_new 10001"] l u show ?thesis
    by (simp add: encode_b decode_b buffer_new js_byte0)
qed

text \<open>
  C10 as stated fails beyond the engine's limit. On an engine that accepts 100000
  arguments in a call, writing 130000 letters "b" after the packet identifier 10001 throws
  a RangeError: the prefix D0 FB (130000 modulo 65536, low byte first) has been written, and
  none of the 130000 bytes is appended.
\<close>

theorem long_string_write_throws:
  "65536 \<le> length (TextEncoder_encode (replicate 130000 0x62)) \<and>
   writeString 100000 (replicate 130000 0x62) (PacketWriter_new 10001) =
     (Inl RangeError, \<lparr>buffer = [0x11, 0x27, 0xD0, 0xFB], packetId = 10001\<rparr>)"
proof -
  have e: "length (TextEncoder_encode (replicate 130000 0x62)) = 130000"
    by (simp add: TextEncoder_encode_replicate)
  then have "100000 < length (TextEncoder_encode (replicate 130000 0x62))"
    by simp
  from writeString_beyond [OF this, of "PacketWriter_new 10001"] e show ?thesis
    by (simp add: writeUInt16_def PacketWriter_new_def js_byte0 js_byte1)
qed

end
